theory Spec2Isabelle
  imports Complex_Main "HOL-Library.Log_Nat"
begin

section \<open>JavaScript numbers\<close>

text \<open>
  A JavaScript number is an IEEE 754 double: a finite value, an infinity or \<open>NaN\<close>. A
  finite double is modelled by its value, a rational number; \<open>-0\<close> is not told apart
  from \<open>0\<close>, which no operation used in the source does either. The result of an
  addition or a subtraction is the exact result rounded to the nearest double, ties to
  the even significand.
\<close>

text \<open>Rounding a rational to the nearest integer, ties to the even one.\<close>

definition rne :: "rat \<Rightarrow> int" where
  "rne x = (let f = \<lfloor>x\<rfloor>; d = x - of_int f
            in if d < 1 / 2 then f else if 1 / 2 < d then f + 1
               else if even f then f else f + 1)"

text \<open>The integer part of the binary logarithm of a positive rational.\<close>

definition ilog2 :: "rat \<Rightarrow> int" where
  "ilog2 x = (if 1 \<le> x then bitlen \<lfloor>x\<rfloor> - 1 else - bitlen (\<lceil>1 / x\<rceil> - 1))"

text \<open>
  The exponent of the unit in the last place of the doubles around \<open>x\<close>: the significand
  has 53 bits, and below \<open>2 powi (- 1022)\<close> the doubles are the multiples of
  \<open>2 powi (- 1074)\<close>.
\<close>

definition quantum :: "rat \<Rightarrow> int" where
  "quantum x = max (ilog2 \<bar>x\<bar> - 52) (- 1074)"

definition roundDouble :: "rat \<Rightarrow> rat" where
  "roundDouble x =
     (if x = 0 then 0
      else sgn x * (of_int (rne (\<bar>x\<bar> / 2 powi quantum x)) * 2 powi quantum x))"

text \<open>The largest finite double, and the rationals that are values of finite doubles.\<close>

definition maxDouble :: rat where
  "maxDouble = (2 ^ 53 - 1) * 2 ^ 971"

definition isDouble :: "rat \<Rightarrow> bool" where
  "isDouble x \<longleftrightarrow> roundDouble x = x \<and> \<bar>x\<bar> \<le> maxDouble"

datatype number = Finite rat | PosInfinity | NegInfinity | NaN

text \<open>The double of an exact result: a rounded result beyond the largest double is an infinity.\<close>

definition fromRat :: "rat \<Rightarrow> number" where
  "fromRat x =
     (let d = roundDouble x
      in if maxDouble < d then PosInfinity
         else if d < - maxDouble then NegInfinity
         else Finite d)"

text \<open>\<open>a + b\<close>, \<open>- a\<close> and \<open>a - b\<close>.\<close>

fun js_add :: "number \<Rightarrow> number \<Rightarrow> number" where
  "js_add (Finite x) (Finite y) = fromRat (x + y)"
| "js_add NaN b = NaN"
| "js_add a NaN = NaN"
| "js_add PosInfinity NegInfinity = NaN"
| "js_add NegInfinity PosInfinity = NaN"
| "js_add PosInfinity b = PosInfinity"
| "js_add a PosInfinity = PosInfinity"
| "js_add NegInfinity b = NegInfinity"
| "js_add a NegInfinity = NegInfinity"

fun js_neg :: "number \<Rightarrow> number" where
  "js_neg (Finite x) = Finite (- x)"
| "js_neg PosInfinity = NegInfinity"
| "js_neg NegInfinity = PosInfinity"
| "js_neg NaN = NaN"

definition js_sub :: "number \<Rightarrow> number \<Rightarrow> number" where
  "js_sub a b = js_add a (js_neg b)"

text \<open>\<open>a < b\<close>, \<open>a === b\<close>, \<open>a <= b\<close>, \<open>a > b\<close> and \<open>a !== b\<close>: a comparison with \<open>NaN\<close> is false.\<close>

fun js_less :: "number \<Rightarrow> number \<Rightarrow> bool" where
  "js_less (Finite x) (Finite y) = (x < y)"
| "js_less NaN b = False"
| "js_less a NaN = False"
| "js_less a NegInfinity = False"
| "js_less NegInfinity b = True"
| "js_less PosInfinity b = False"
| "js_less a PosInfinity = True"

fun js_eq :: "number \<Rightarrow> number \<Rightarrow> bool" where
  "js_eq (Finite x) (Finite y) = (x = y)"
| "js_eq PosInfinity PosInfinity = True"
| "js_eq NegInfinity NegInfinity = True"
| "js_eq a b = False"

definition js_le :: "number \<Rightarrow> number \<Rightarrow> bool" where
  "js_le a b = (js_less a b \<or> js_eq a b)"

definition js_gt :: "number \<Rightarrow> number \<Rightarrow> bool" where
  "js_gt a b = js_less b a"

definition js_neq :: "number \<Rightarrow> number \<Rightarrow> bool" where
  "js_neq a b = (\<not> js_eq a b)"

text \<open>\<open>Math.min(a, b)\<close> and \<open>Math.max(a, b)\<close>: \<open>NaN\<close> when an argument is \<open>NaN\<close>.\<close>

definition mathMin :: "number \<Rightarrow> number \<Rightarrow> number" where
  "mathMin a b = (if a = NaN \<or> b = NaN then NaN else if js_less b a then b else a)"

definition mathMax :: "number \<Rightarrow> number \<Rightarrow> number" where
  "mathMax a b = (if a = NaN \<or> b = NaN then NaN else if js_less a b then b else a)"

text \<open>The value of a finite number, for statements about exact sums.\<close>

fun valueOf :: "number \<Rightarrow> rat" where
  "valueOf (Finite x) = x"
| "valueOf n = 0"

text \<open>
  The amounts of the data model: finite and non-negative. An amount of an entry may be
  absent.
\<close>

fun nonNegative :: "number \<Rightarrow> bool" where
  "nonNegative (Finite x) = (0 \<le> x \<and> isDouble x)"
| "nonNegative n = False"

definition nonNegativeAmount :: "number option \<Rightarrow> bool" where
  "nonNegativeAmount v = (case v of None \<Rightarrow> True | Some n \<Rightarrow> nonNegative n)"

text \<open>
  What a sum of amounts can be: an amount, or \<open>Infinity\<close> when an addition went beyond the
  largest double.
\<close>

definition nonNegativeOrInfinity :: "number \<Rightarrow> bool" where
  "nonNegativeOrInfinity n \<longleftrightarrow> n = PosInfinity \<or> nonNegative n"

text \<open>
  The sum of a column of amounts as JavaScript adds it up: from 0, with \<open>+\<close>, in the order
  of the column, every addition rounded; an absent amount counts as 0.
\<close>

definition amountOf :: "number option \<Rightarrow> number" where
  "amountOf v = (case v of None \<Rightarrow> Finite 0 | Some n \<Rightarrow> n)"

definition sumOfAmounts :: "number option list \<Rightarrow> number" where
  "sumOfAmounts vs = foldl js_add (Finite 0) (map amountOf vs)"

section \<open>Truthiness, optional properties and the lodash helpers\<close>

text \<open>
  A property of an entry that is \<open>undefined\<close> or \<open>null\<close> is \<open>None\<close>: the source treats the
  two alike there. For the properties of the DTO that \<open>upsertGraph\<close> writes, an absent
  property and \<open>null\<close> differ, so they are kept apart.
\<close>

datatype 'a property = Absent | Null | Value 'a

text \<open>JavaScript truthiness of an optional number and of an optional string.\<close>

definition truthy_num :: "nat option \<Rightarrow> bool" where
  "truthy_num v = (case v of None \<Rightarrow> False | Some k \<Rightarrow> k \<noteq> 0)"

definition truthy_str :: "string option \<Rightarrow> bool" where
  "truthy_str v = (case v of None \<Rightarrow> False | Some s \<Rightarrow> s \<noteq> [])"

text \<open>
  lodash \<open>sumBy(array, key)\<close>: 0 on the empty array; otherwise the values that are not
  \<open>undefined\<close> are added up with \<open>+\<close>, in the order of the array, and the result is
  \<open>undefined\<close> when there is none.
\<close>

fun baseSum :: "number option \<Rightarrow> number option list \<Rightarrow> number option" where
  "baseSum result [] = result"
| "baseSum result (None # vs) = baseSum result vs"
| "baseSum None (Some current # vs) = baseSum (Some current) vs"
| "baseSum (Some r) (Some current # vs) = baseSum (Some (js_add r current)) vs"

definition sumBy :: "'a list \<Rightarrow> ('a \<Rightarrow> number option) \<Rightarrow> number option" where
  "sumBy array iteratee =
     (if array = [] then Some (Finite 0) else baseSum None (map iteratee array))"

text \<open>\<open>v || 0\<close> on a possibly undefined number: \<open>undefined\<close>, \<open>NaN\<close> and 0 are falsy.\<close>

definition orZero :: "number option \<Rightarrow> number" where
  "orZero v = (case v of None \<Rightarrow> Finite 0 | Some x \<Rightarrow> if x = NaN then Finite 0 else x)"

text \<open>lodash \<open>difference(array, values)\<close>: the elements of \<open>array\<close> that are not in \<open>values\<close>.\<close>

definition difference :: "'a list \<Rightarrow> 'a list \<Rightarrow> 'a list" where
  "difference array vals = filter (\<lambda>x. x \<notin> set vals) array"

section \<open>Payment entries of the payment-receive form\<close>

text \<open>
  An entry of the form. \<open>amountPaymentEntries\<close> copies every field of an entry with
  \<open>...item\<close> and sets \<open>payment_amount\<close>; the functions below are written over the record
  scheme, so fields that the form adds to an entry are carried in the extension.
\<close>

record paymentEntry =
  invoice_id :: nat
  due_amount :: number
  payment_amount :: number

text \<open>The \<open>map\<close> callback of \<open>amountPaymentEntries\<close>, with the captured variable \<open>total\<close> passed along as \<open>remaining\<close>
  (\<open>total\<close> is a constant of HOL).\<close>

fun amountPaymentEntries_map ::
  "number \<Rightarrow> 'a paymentEntry_scheme list \<Rightarrow> 'a paymentEntry_scheme list" where
  "amountPaymentEntries_map remaining [] = []"
| "amountPaymentEntries_map remaining (item # items) =
     (let diff = mathMin (due_amount item) remaining;
          remaining' = js_sub remaining (mathMax diff (Finite 0))
      in item\<lparr>payment_amount := diff\<rparr> # amountPaymentEntries_map remaining' items)"

definition amountPaymentEntries ::
  "number \<Rightarrow> 'a paymentEntry_scheme list \<Rightarrow> 'a paymentEntry_scheme list" where
  "amountPaymentEntries amount entries = amountPaymentEntries_map amount entries"

text \<open>
  What is left of an amount after the payments \<open>ps\<close> have been taken from it one after the
  other, each with \<open>-\<close>; and the runs in which none of these subtractions rounds.
\<close>

definition remainingAfter :: "number \<Rightarrow> number list \<Rightarrow> number" where
  "remainingAfter amount ps = foldl js_sub amount ps"

fun exactSubtractions :: "number \<Rightarrow> number list \<Rightarrow> bool" where
  "exactSubtractions r [] = True"
| "exactSubtractions r (p # ps) =
     (js_sub r p = Finite (valueOf r - valueOf p) \<and> exactSubtractions (js_sub r p) ps)"

section \<open>Manual journals: data\<close>

datatype contact_rec = Contact (contact_id: nat) (contactService: string)

datatype account_rec = Account (account_id: nat) (account_slug: string)

text \<open>
  The errors of \<open>ERRORS\<close> that the service raises, with the payload a \<open>ServiceError\<close>
  carries. \<open>TypeError\<close> is the JavaScript exception of reading a property of \<open>undefined\<close>;
  \<open>NotFoundError\<close> is raised by \<open>upsertGraph\<close> for an id that has no row.
\<close>

datatype error =
    NOT_FOUND
  | CREDIT_DEBIT_NOT_EQUAL_ZERO
  | CREDIT_DEBIT_NOT_EQUAL
  | ACCCOUNTS_IDS_NOT_FOUND
  | JOURNAL_NUMBER_EXISTS
  | ENTRIES_SHOULD_ASSIGN_WITH_CONTACT string string "int list"
  | CONTACTS_NOT_FOUND "contact_rec option list"
  | MANUAL_JOURNAL_NO_REQUIRED
  | MANUAL_JOURNAL_ALREADY_PUBLISHED
  | TypeError
  | NotFoundError

record manualJournalEntry =
  index :: int
  accountId :: nat
  credit :: "number option"
  debit :: "number option"
  contactId :: "nat option"
  contactType :: "string option"

text \<open>The entries of the data model: every credit and debit is absent or a non-negative amount.\<close>

definition nonNegativeEntries :: "manualJournalEntry list \<Rightarrow> bool" where
  "nonNegativeEntries es =
     list_all (\<lambda>e. nonNegativeAmount (credit e) \<and> nonNegativeAmount (debit e)) es"

record manualJournalDTO =
  date :: string
  journalNumber :: "string property"
  description :: "string property"
  publish :: bool
  entries :: "manualJournalEntry list"

text \<open>
  A row of the journals table (a \<open>NULL\<close> column is \<open>None\<close>), and the journal with its
  entries as \<open>withGraphFetched('entries')\<close> returns it.
\<close>

record manualJournalRow =
  mj_id :: nat
  mj_journalNumber :: "string option"
  mj_date :: string
  mj_description :: "string option"
  mj_amount :: number
  mj_publishedAt :: "string option"
  mj_userId :: "nat option"

record manualJournal = manualJournalRow +
  mj_entries :: "manualJournalEntry list"

text \<open>
  The object handed to \<open>upsertGraph\<close>: the DTO without \<open>publish\<close>, with the computed
  fields. A property that the object does not have is \<open>Absent\<close>.
\<close>

record manualJournalGraph =
  g_id :: "nat option"
  g_date :: string
  g_journalNumber :: "string property"
  g_description :: "string property"
  g_entries :: "manualJournalEntry list"
  g_publishedAt :: "string property"
  g_amount :: number
  g_userId :: "nat property"

record systemUser =
  user_id :: nat

record publishMeta =
  alreadyPublished :: nat
  published :: nat
  total_count :: nat

datatype event =
    onCreated manualJournal
  | onEdited "manualJournal option" manualJournal
  | onDeletedBulk "nat list"
  | onPublished "manualJournal option" manualJournal
  | onPublishedBulk "nat list" "manualJournal list"

text \<open>
  What an operation does to the outside, in the order it does it: the writes it issues
  to the persistence layer and the events it dispatches.
\<close>

datatype effect =
    UpsertGraph manualJournalGraph
  | PatchPublishedAt "nat list" string
  | DeleteEntriesWhereIn "nat list"
  | DeleteJournalsWhereIn "nat list"
  | Dispatch event

text \<open>
  The storage of one tenant, as \<open>this.tenancy.models(tenantId)\<close> and
  \<open>this.tenancy.repositories(tenantId)\<close> give it: the tables in row order, the
  auto-increment counter of the journals table, and the effects so far.
\<close>

record store =
  journalsTable :: "manualJournalRow list"
  entriesTable :: "(nat \<times> manualJournalEntry) list"
  accountsTable :: "account_rec list"
  contactsTable :: "contact_rec list"
  nextId :: nat
  effects :: "effect list"

text \<open>
  What the service reads from outside the storage: the clock
  (\<open>moment().toMySqlDateTime()\<close>), the number that
  \<open>autoIncrementOrdersService.getNextTransactionNumber\<close> returns (its code is not part
  of the files at hand, so it is a parameter), the date formatting of \<open>moment\<close>, and which
  of the two concurrent classification checks rejects first when both reject.
\<close>

record env =
  now :: string
  nextTransactionNumber :: string
  formatDate :: "string \<Rightarrow> string"
  payableRejectsFirst :: bool

section \<open>The persistence layer\<close>

definition findById :: "store \<Rightarrow> nat \<Rightarrow> manualJournalRow option" where
  "findById st i = find (\<lambda>r. mj_id r = i) (journalsTable st)"

definition whereInId :: "store \<Rightarrow> nat list \<Rightarrow> manualJournalRow list" where
  "whereInId st ids = filter (\<lambda>r. mj_id r \<in> set ids) (journalsTable st)"

definition withEntries :: "manualJournalRow \<Rightarrow> manualJournalEntry list \<Rightarrow> manualJournal" where
  "withEntries r es = manualJournalRow.extend r (manualJournal.fields es)"

definition withGraphFetched :: "store \<Rightarrow> manualJournalRow \<Rightarrow> manualJournal" where
  "withGraphFetched st r =
     withEntries r (map snd (filter (\<lambda>p. fst p = mj_id r) (entriesTable st)))"

definition issue :: "effect \<Rightarrow> store \<Rightarrow> store" where
  "issue e st = st\<lparr>effects := effects st @ [e]\<rparr>"

definition dispatch :: "event \<Rightarrow> store \<Rightarrow> store" where
  "dispatch ev st = issue (Dispatch ev) st"

text \<open>
  A patch of a column by a property of the graph object: a property the object lacks
  leaves the column alone, \<open>null\<close> writes \<open>NULL\<close>. On insert a column without a value is
  \<open>NULL\<close>.
\<close>

definition patched :: "'a property \<Rightarrow> 'a option \<Rightarrow> 'a option" where
  "patched new old = (case new of Absent \<Rightarrow> old | Null \<Rightarrow> None | Value v \<Rightarrow> Some v)"

definition inserted :: "'a property \<Rightarrow> 'a option" where
  "inserted new = (case new of Absent \<Rightarrow> None | Null \<Rightarrow> None | Value v \<Rightarrow> Some v)"

definition patchRow :: "manualJournalGraph \<Rightarrow> manualJournalRow \<Rightarrow> manualJournalRow" where
  "patchRow g r =
     r\<lparr>mj_journalNumber := patched (g_journalNumber g) (mj_journalNumber r),
       mj_date := g_date g,
       mj_description := patched (g_description g) (mj_description r),
       mj_amount := g_amount g,
       mj_publishedAt := patched (g_publishedAt g) (mj_publishedAt r),
       mj_userId := patched (g_userId g) (mj_userId r)\<rparr>"

definition newRow :: "nat \<Rightarrow> manualJournalGraph \<Rightarrow> manualJournalRow" where
  "newRow i g =
     \<lparr>mj_id = i, mj_journalNumber = inserted (g_journalNumber g), mj_date = g_date g,
      mj_description = inserted (g_description g), mj_amount = g_amount g,
      mj_publishedAt = inserted (g_publishedAt g), mj_userId = inserted (g_userId g)\<rparr>"

text \<open>
  \<open>ManualJournal.query().upsertGraph(graph)\<close>. Without an id the parent row is inserted
  under the next id, with the entries as its children. With an id the row of that id is
  patched and its children are replaced by the entries of the graph; an id without a
  row is refused and nothing is written.
\<close>

definition upsertGraph :: "store \<Rightarrow> manualJournalGraph \<Rightarrow> (error + manualJournal) \<times> store" where
  "upsertGraph st g =
     (case g_id g of
        None \<Rightarrow>
          (let i = nextId st; row = newRow i g
           in (Inr (withEntries row (g_entries g)),
               issue (UpsertGraph g)
                 (st\<lparr>journalsTable := journalsTable st @ [row],
                     entriesTable := entriesTable st @ map (Pair i) (g_entries g),
                     nextId := Suc i\<rparr>)))
      | Some i \<Rightarrow>
          (case findById st i of
             None \<Rightarrow> (Inl NotFoundError, st)
           | Some old \<Rightarrow>
               (Inr (withEntries (patchRow g old) (g_entries g)),
                issue (UpsertGraph g)
                  (st\<lparr>journalsTable :=
                        map (\<lambda>r. if mj_id r = i then patchRow g r else r) (journalsTable st),
                      entriesTable :=
                        filter (\<lambda>p. fst p \<noteq> i) (entriesTable st)
                          @ map (Pair i) (g_entries g)\<rparr>))))"

text \<open>\<open>ManualJournal.query().whereIn('id', ids).patch({ publishedAt })\<close>.\<close>

definition patchPublishedAt :: "store \<Rightarrow> nat list \<Rightarrow> string \<Rightarrow> store" where
  "patchPublishedAt st ids t =
     issue (PatchPublishedAt ids t)
       (st\<lparr>journalsTable :=
             map (\<lambda>r. if mj_id r \<in> set ids then r\<lparr>mj_publishedAt := Some t\<rparr> else r)
               (journalsTable st)\<rparr>)"

text \<open>\<open>ManualJournalEntry.query().whereIn('manual_journal_id', ids).delete()\<close>.\<close>

definition deleteEntriesWhereIn :: "store \<Rightarrow> nat list \<Rightarrow> store" where
  "deleteEntriesWhereIn st ids =
     issue (DeleteEntriesWhereIn ids)
       (st\<lparr>entriesTable := filter (\<lambda>p. fst p \<notin> set ids) (entriesTable st)\<rparr>)"

text \<open>\<open>ManualJournal.query().whereIn('id', ids).delete()\<close>.\<close>

definition deleteJournalsWhereIn :: "store \<Rightarrow> nat list \<Rightarrow> store" where
  "deleteJournalsWhereIn st ids =
     issue (DeleteJournalsWhereIn ids)
       (st\<lparr>journalsTable := filter (\<lambda>r. mj_id r \<notin> set ids) (journalsTable st)\<rparr>)"

text \<open>
  The auto-increment counter of the journals table is above every journal id in use, in
  the journals table and in the entries table.
\<close>

definition freshIds :: "store \<Rightarrow> bool" where
  "freshIds st \<longleftrightarrow>
     list_all (\<lambda>r. mj_id r < nextId st) (journalsTable st)
   \<and> list_all (\<lambda>p. fst p < nextId st) (entriesTable st)"

section \<open>ManualJournalsService: resolving and validating\<close>

definition getManualJournalOrThrowError :: "store \<Rightarrow> nat \<Rightarrow> error + manualJournal" where
  "getManualJournalOrThrowError st manualJournalId =
     (case findById st manualJournalId of
        None \<Rightarrow> Inl NOT_FOUND
      | Some manualJournal \<Rightarrow> Inr (withGraphFetched st manualJournal))"

definition getManualJournalsOrThrowError :: "store \<Rightarrow> nat list \<Rightarrow> error + manualJournal list" where
  "getManualJournalsOrThrowError st manualJournalsIds =
     (let manualJournals = map (withGraphFetched st) (whereInId st manualJournalsIds);
          notFoundManualJournals = difference manualJournalsIds (map mj_id manualJournals)
      in if length notFoundManualJournals > 0 then Inl NOT_FOUND else Inr manualJournals)"

text \<open>
  The \<open>forEach\<close> of \<open>valdiateCreditDebitTotalEquals\<close>: the state of the loop is the pair
  \<open>(totalCredit, totalDebit)\<close>; \<open>undefined > 0\<close> is false.
\<close>

definition addEntryTotals :: "manualJournalEntry \<Rightarrow> number \<times> number \<Rightarrow> number \<times> number" where
  "addEntryTotals entry totals =
     (let totalCredit =
            (case credit entry of
               None \<Rightarrow> fst totals
             | Some c \<Rightarrow> if js_gt c (Finite 0) then js_add (fst totals) c else fst totals);
          totalDebit =
            (case debit entry of
               None \<Rightarrow> snd totals
             | Some d \<Rightarrow> if js_gt d (Finite 0) then js_add (snd totals) d else snd totals)
      in (totalCredit, totalDebit))"

definition creditDebitTotals :: "manualJournalEntry list \<Rightarrow> number \<times> number" where
  "creditDebitTotals es = fold addEntryTotals es (Finite 0, Finite 0)"

definition valdiateCreditDebitTotalEquals :: "manualJournalDTO \<Rightarrow> error + unit" where
  "valdiateCreditDebitTotalEquals manualJournalDTO =
     (let totals = creditDebitTotals (entries manualJournalDTO);
          totalCredit = fst totals;
          totalDebit = snd totals
      in if js_le totalCredit (Finite 0) \<or> js_le totalDebit (Finite 0)
         then Inl CREDIT_DEBIT_NOT_EQUAL_ZERO
         else if js_neq totalCredit totalDebit then Inl CREDIT_DEBIT_NOT_EQUAL
         else Inr ())"

definition validateAccountsExistance :: "store \<Rightarrow> manualJournalDTO \<Rightarrow> error + unit" where
  "validateAccountsExistance st manualJournalDTO =
     (let manualAccountsIds = map accountId (entries manualJournalDTO);
          accs = filter (\<lambda>a. account_id a \<in> set manualAccountsIds) (accountsTable st);
          storedAccountsIds = map account_id accs
      in if length (difference manualAccountsIds storedAccountsIds) > 0
         then Inl ACCCOUNTS_IDS_NOT_FOUND else Inr ())"

text \<open>
  \<open>notId\<close> is the optional third argument; \<open>if (notId)\<close> is its truthiness, so the id 0
  adds no \<open>whereNot\<close>.
\<close>

definition validateManualJournalNoUnique :: "store \<Rightarrow> string \<Rightarrow> nat option \<Rightarrow> error + unit" where
  "validateManualJournalNoUnique st journalNo notId =
     (let sameNumber = filter (\<lambda>r. mj_journalNumber r = Some journalNo) (journalsTable st);
          journals = (if truthy_num notId
                      then filter (\<lambda>r. Some (mj_id r) \<noteq> notId) sameNumber
                      else sameNumber)
      in if length journals > 0 then Inl JOURNAL_NUMBER_EXISTS else Inr ())"

text \<open>
  \<open>Account.query().findOne('slug', accountBySlug)\<close> is \<open>undefined\<close> when no account has
  the slug; \<open>account.id\<close> is then read in the callback of the first \<open>filter\<close>, that is,
  as soon as there is an entry.
\<close>

definition validateAccountWithContactType ::
  "store \<Rightarrow> manualJournalEntry list \<Rightarrow> string \<Rightarrow> string \<Rightarrow> error + unit" where
  "validateAccountWithContactType st entriesDTO accountBySlug expectedType =
     (case find (\<lambda>a. account_slug a = accountBySlug) (accountsTable st) of
        None \<Rightarrow> if entriesDTO = [] then Inr () else Inl TypeError
      | Some account \<Rightarrow>
          (let accountEntries = filter (\<lambda>entry. accountId entry = account_id account) entriesDTO
           in if length accountEntries = 0 then Inr ()
              else
                (let entriesNoContact =
                       filter (\<lambda>entry. \<not> truthy_str (contactType entry)
                                 \<or> contactType entry \<noteq> Some expectedType) accountEntries
                 in if length entriesNoContact > 0
                    then Inl (ENTRIES_SHOULD_ASSIGN_WITH_CONTACT accountBySlug expectedType
                                (map index entriesNoContact))
                    else Inr ())))"

text \<open>
  \<open>Promise.all\<close> of the two checks: it resolves when both resolve and rejects with the
  rejection that comes first.
\<close>

definition dynamicValidateAccountsWithContactType ::
  "env \<Rightarrow> store \<Rightarrow> manualJournalEntry list \<Rightarrow> error + unit" where
  "dynamicValidateAccountsWithContactType E st entriesDTO =
     (case (validateAccountWithContactType st entriesDTO ''accounts-receivable'' ''customer'',
            validateAccountWithContactType st entriesDTO ''accounts-payable'' ''vendor'') of
        (Inl e1, Inl e2) \<Rightarrow> Inl (if payableRejectsFirst E then e2 else e1)
      | (Inl e1, Inr _) \<Rightarrow> Inl e1
      | (Inr _, Inl e2) \<Rightarrow> Inl e2
      | (Inr _, Inr _) \<Rightarrow> Inr ())"

text \<open>
  \<open>new Map(storedContacts.map((contact) => [contact.id, contact]))\<close>: of two contacts
  with one id the later one stays.
\<close>

definition contactsMap :: "contact_rec list \<Rightarrow> nat \<Rightarrow> contact_rec option" where
  "contactsMap storedContacts = map_of (rev (map (\<lambda>c. (contact_id c, c)) storedContacts))"

definition mapGet :: "(nat \<Rightarrow> contact_rec option) \<Rightarrow> nat option \<Rightarrow> contact_rec option" where
  "mapGet m k = (case k of None \<Rightarrow> None | Some i \<Rightarrow> m i)"

text \<open>
  The callback of the \<open>forEach\<close> over the entries with a contact: it pushes
  \<open>storedContact\<close>, the result of the lookup.
\<close>

definition pushNotFound ::
  "(nat \<Rightarrow> contact_rec option) \<Rightarrow> manualJournalEntry \<Rightarrow> contact_rec option list
     \<Rightarrow> contact_rec option list" where
  "pushNotFound storedContactsMap contactEntry notFoundContactsIds =
     (let storedContact = mapGet storedContactsMap (contactId contactEntry)
      in case storedContact of
           None \<Rightarrow> notFoundContactsIds @ [storedContact]
         | Some c \<Rightarrow>
             if Some (contactService c) \<noteq> contactType contactEntry
             then notFoundContactsIds @ [storedContact]
             else notFoundContactsIds)"

definition validateContactsExistance :: "store \<Rightarrow> manualJournalDTO \<Rightarrow> error + unit" where
  "validateContactsExistance st manualJournalDTO =
     (let entriesContactPairs = filter (\<lambda>entry. truthy_num (contactId entry)) (entries manualJournalDTO)
      in if length entriesContactPairs > 0
         then
           (let entriesContactsIds = map contactId entriesContactPairs;
                storedContacts = filter (\<lambda>c. Some (contact_id c) \<in> set entriesContactsIds) (contactsTable st);
                storedContactsMap = contactsMap storedContacts;
                notFoundContactsIds = fold (pushNotFound storedContactsMap) entriesContactPairs []
            in if length notFoundContactsIds > 0
               then Inl (CONTACTS_NOT_FOUND notFoundContactsIds)
               else Inr ())
         else Inr ())"

definition validateJournalNoRequire :: "string \<Rightarrow> error + unit" where
  "validateJournalNoRequire journalNo =
     (if journalNo = [] then Inl MANUAL_JOURNAL_NO_REQUIRED else Inr ())"

section \<open>ManualJournalsService: the transforms\<close>

text \<open>\<open>manualJournalDTO.journalNumber || autoNextNumber\<close>.\<close>

definition orElse :: "string property \<Rightarrow> string \<Rightarrow> string" where
  "orElse v other =
     (case v of Absent \<Rightarrow> other | Null \<Rightarrow> other | Value s \<Rightarrow> if s = [] then other else s)"

definition transformNewDTOToModel ::
  "env \<Rightarrow> manualJournalDTO \<Rightarrow> systemUser \<Rightarrow> error + manualJournalGraph" where
  "transformNewDTOToModel E manualJournalDTO authorizedUser =
     (let amount = orZero (sumBy (entries manualJournalDTO) credit);
          date' = formatDate E (date manualJournalDTO);
          autoNextNumber = nextTransactionNumber E;
          journalNo = orElse (journalNumber manualJournalDTO) autoNextNumber
      in case validateJournalNoRequire journalNo of
           Inl e \<Rightarrow> Inl e
         | Inr _ \<Rightarrow>
             Inr \<lparr>g_id = None,
                  g_date = date',
                  g_journalNumber = Value journalNo,
                  g_description = description manualJournalDTO,
                  g_entries = entries manualJournalDTO,
                  g_publishedAt = (if publish manualJournalDTO then Value (now E) else Absent),
                  g_amount = amount,
                  g_userId = Value (user_id authorizedUser)\<rparr>)"

definition transformEditDTOToModel ::
  "env \<Rightarrow> manualJournalDTO \<Rightarrow> manualJournal \<Rightarrow> manualJournalGraph" where
  "transformEditDTOToModel E manualJournalDTO oldManualJournal =
     (let amount = orZero (sumBy (entries manualJournalDTO) credit);
          date' = formatDate E (date manualJournalDTO)
      in \<lparr>g_id = Some (mj_id oldManualJournal),
          g_date = date',
          g_journalNumber = journalNumber manualJournalDTO,
          g_description = description manualJournalDTO,
          g_entries = entries manualJournalDTO,
          g_publishedAt =
            (if publish manualJournalDTO \<and> \<not> truthy_str (mj_publishedAt oldManualJournal)
             then Value (now E) else Absent),
          g_amount = amount,
          g_userId = Absent\<rparr>)"

section \<open>ManualJournalsService: the operations\<close>

text \<open>
  An operation returns what the caller sees, a value or the error thrown, and the storage
  as the operation leaves it: a write that was issued before an error stays written.
  In \<open>makeJournalEntries\<close>, \<open>orElse (g_journalNumber manualJournalObj) []\<close> reads
  \<open>manualJournalObj.journalNumber\<close>, which the transform has set. In
  \<open>editJournalEntries\<close>, \<open>if (manualJournalDTO.journalNumber)\<close> holds for a journal number
  that is present and not the empty string.
\<close>

definition makeJournalEntries ::
  "env \<Rightarrow> store \<Rightarrow> manualJournalDTO \<Rightarrow> systemUser \<Rightarrow> (error + manualJournal) \<times> store" where
  "makeJournalEntries E st manualJournalDTO authorizedUser =
     (case transformNewDTOToModel E manualJournalDTO authorizedUser of
        Inl e \<Rightarrow> (Inl e, st)
      | Inr manualJournalObj \<Rightarrow>
     (case valdiateCreditDebitTotalEquals manualJournalDTO of
        Inl e \<Rightarrow> (Inl e, st)
      | Inr _ \<Rightarrow>
     (case validateContactsExistance st manualJournalDTO of
        Inl e \<Rightarrow> (Inl e, st)
      | Inr _ \<Rightarrow>
     (case validateAccountsExistance st manualJournalDTO of
        Inl e \<Rightarrow> (Inl e, st)
      | Inr _ \<Rightarrow>
     (case validateManualJournalNoUnique st (orElse (g_journalNumber manualJournalObj) []) None of
        Inl e \<Rightarrow> (Inl e, st)
      | Inr _ \<Rightarrow>
     (case dynamicValidateAccountsWithContactType E st (entries manualJournalDTO) of
        Inl e \<Rightarrow> (Inl e, st)
      | Inr _ \<Rightarrow>
     (case upsertGraph st manualJournalObj of
        (Inl e, st1) \<Rightarrow> (Inl e, st1)
      | (Inr manualJournal, st1) \<Rightarrow>
          (Inr manualJournal, dispatch (onCreated manualJournal) st1))))))))"

definition editJournalEntries ::
  "env \<Rightarrow> store \<Rightarrow> nat \<Rightarrow> manualJournalDTO \<Rightarrow> systemUser
     \<Rightarrow> (error + manualJournal option \<times> manualJournal) \<times> store" where
  "editJournalEntries E st manualJournalId manualJournalDTO authorizedUser =
     (case getManualJournalOrThrowError st manualJournalId of
        Inl e \<Rightarrow> (Inl e, st)
      | Inr oldManualJournal \<Rightarrow>
     (let manualJournalObj = transformEditDTOToModel E manualJournalDTO oldManualJournal in
     (case valdiateCreditDebitTotalEquals manualJournalDTO of
        Inl e \<Rightarrow> (Inl e, st)
      | Inr _ \<Rightarrow>
     (case validateContactsExistance st manualJournalDTO of
        Inl e \<Rightarrow> (Inl e, st)
      | Inr _ \<Rightarrow>
     (case validateAccountsExistance st manualJournalDTO of
        Inl e \<Rightarrow> (Inl e, st)
      | Inr _ \<Rightarrow>
     (case (case journalNumber manualJournalDTO of
              Absent \<Rightarrow> Inr ()
            | Null \<Rightarrow> Inr ()
            | Value journalNo \<Rightarrow>
                if journalNo \<noteq> []
                then validateManualJournalNoUnique st journalNo (Some manualJournalId)
                else Inr ()) of
        Inl e \<Rightarrow> (Inl e, st)
      | Inr _ \<Rightarrow>
     (case dynamicValidateAccountsWithContactType E st (entries manualJournalDTO) of
        Inl e \<Rightarrow> (Inl e, st)
      | Inr _ \<Rightarrow>
     (case upsertGraph st manualJournalObj of
        (Inl e, st1) \<Rightarrow> (Inl e, st1)
      | (Inr _, st1) \<Rightarrow>
          (let manualJournal = map_option (withGraphFetched st1) (findById st1 manualJournalId)
           in (Inr (manualJournal, oldManualJournal),
               dispatch (onEdited manualJournal oldManualJournal) st1))))))))))"

definition deleteManualJournals ::
  "store \<Rightarrow> nat list \<Rightarrow> (error + manualJournal list) \<times> store" where
  "deleteManualJournals st manualJournalsIds =
     (case getManualJournalsOrThrowError st manualJournalsIds of
        Inl e \<Rightarrow> (Inl e, st)
      | Inr oldManualJournals \<Rightarrow>
          (let st1 = deleteEntriesWhereIn st manualJournalsIds;
               st2 = deleteJournalsWhereIn st1 manualJournalsIds
           in (Inr oldManualJournals, dispatch (onDeletedBulk manualJournalsIds) st2)))"

definition getNonePublishedManualJournals :: "manualJournal list \<Rightarrow> manualJournal list" where
  "getNonePublishedManualJournals manualJournals =
     filter (\<lambda>manualJournal. \<not> truthy_str (mj_publishedAt manualJournal)) manualJournals"

definition getPublishedManualJournals :: "manualJournal list \<Rightarrow> manualJournal list" where
  "getPublishedManualJournals manualJournals =
     filter (\<lambda>expense. truthy_str (mj_publishedAt expense)) manualJournals"

definition publishManualJournals ::
  "env \<Rightarrow> store \<Rightarrow> nat list \<Rightarrow> (error + publishMeta) \<times> store" where
  "publishManualJournals E st manualJournalsIds =
     (case getManualJournalsOrThrowError st manualJournalsIds of
        Inl e \<Rightarrow> (Inl e, st)
      | Inr oldManualJournals \<Rightarrow>
          (let notPublishedJournals = getNonePublishedManualJournals oldManualJournals;
               publishedJournals = getPublishedManualJournals oldManualJournals;
               notPublishedJournalsIds = map mj_id notPublishedJournals;
               st1 = (if length notPublishedJournals > 0
                      then patchPublishedAt st notPublishedJournalsIds (now E)
                      else st)
           in (Inr \<lparr>alreadyPublished = length publishedJournals,
                    published = length notPublishedJournals,
                    total_count = length oldManualJournals\<rparr>,
               dispatch (onPublishedBulk manualJournalsIds oldManualJournals) st1)))"

definition validateManualJournalIsNotPublished :: "manualJournal \<Rightarrow> error + unit" where
  "validateManualJournalIsNotPublished manualJournal =
     (if truthy_str (mj_publishedAt manualJournal)
      then Inl MANUAL_JOURNAL_ALREADY_PUBLISHED else Inr ())"

definition publishManualJournal :: "env \<Rightarrow> store \<Rightarrow> nat \<Rightarrow> (error + unit) \<times> store" where
  "publishManualJournal E st manualJournalId =
     (case getManualJournalOrThrowError st manualJournalId of
        Inl e \<Rightarrow> (Inl e, st)
      | Inr oldManualJournal \<Rightarrow>
     (case validateManualJournalIsNotPublished oldManualJournal of
        Inl e \<Rightarrow> (Inl e, st)
      | Inr _ \<Rightarrow>
          (let st1 = patchPublishedAt st [manualJournalId] (now E);
               manualJournal = map_option (withGraphFetched st1) (findById st1 manualJournalId)
           in (Inr (), dispatch (onPublished manualJournal oldManualJournal) st1))))"

section \<open>Concrete inputs\<close>

text \<open>Two invoices, due 3 and 4, for a payment of 5.\<close>

definition invoiceA :: paymentEntry where
  "invoiceA = \<lparr>invoice_id = 1, due_amount = Finite 3, payment_amount = Finite 0\<rparr>"

definition invoiceB :: paymentEntry where
  "invoiceB = \<lparr>invoice_id = 2, due_amount = Finite 4, payment_amount = Finite 0\<rparr>"

text \<open>
  The doubles nearest to the decimals 0.2, 0.7, 0.8 and 0.9, and two invoices, due 0.2 and
  0.8, for a payment of 0.9.
\<close>

definition double_0_2 :: rat where
  "double_0_2 = 3602879701896397 / 18014398509481984"

definition double_0_7 :: rat where
  "double_0_7 = 3152519739159347 / 4503599627370496"

definition double_0_8 :: rat where
  "double_0_8 = 3602879701896397 / 4503599627370496"

definition double_0_9 :: rat where
  "double_0_9 = 8106479329266893 / 9007199254740992"

definition invoiceC :: paymentEntry where
  "invoiceC = \<lparr>invoice_id = 3, due_amount = Finite double_0_2, payment_amount = Finite 0\<rparr>"

definition invoiceD :: paymentEntry where
  "invoiceD = \<lparr>invoice_id = 4, due_amount = Finite double_0_8, payment_amount = Finite 0\<rparr>"

text \<open>
  A tenant with the receivable, the payable and a cash account, a customer and a vendor,
  a draft journal (id 11) and a published journal (id 12).
\<close>

definition env0 :: env where
  "env0 = \<lparr>now = ''2021-02-02 10:00:00'', nextTransactionNumber = ''J-9'',
           formatDate = (\<lambda>d. d), payableRejectsFirst = False\<rparr>"

definition user0 :: systemUser where
  "user0 = \<lparr>user_id = 7\<rparr>"

definition entryReceivable :: manualJournalEntry where
  "entryReceivable = \<lparr>index = 1, accountId = 10, credit = Some (Finite 100), debit = None,
                       contactId = Some 41, contactType = Some ''customer''\<rparr>"

definition entryCash :: manualJournalEntry where
  "entryCash = \<lparr>index = 2, accountId = 30, credit = None, debit = Some (Finite 100),
                 contactId = None, contactType = None\<rparr>"

definition rowDraft :: manualJournalRow where
  "rowDraft = \<lparr>mj_id = 11, mj_journalNumber = Some ''J-1'', mj_date = ''2021-01-01'',
                mj_description = None, mj_amount = Finite 100, mj_publishedAt = None,
                mj_userId = Some 7\<rparr>"

definition rowPublished :: manualJournalRow where
  "rowPublished = \<lparr>mj_id = 12, mj_journalNumber = Some ''J-2'', mj_date = ''2021-01-05'',
                mj_description = None, mj_amount = Finite 100,
                mj_publishedAt = Some ''2021-01-05 09:00:00'', mj_userId = Some 7\<rparr>"

definition store0 :: store where
  "store0 = \<lparr>journalsTable = [rowDraft, rowPublished],
             entriesTable = [(11, entryReceivable), (11, entryCash),
                             (12, entryReceivable), (12, entryCash)],
             accountsTable = [Account 10 ''accounts-receivable'', Account 20 ''accounts-payable'',
                              Account 30 ''cash''],
             contactsTable = [Contact 41 ''customer'', Contact 42 ''vendor''],
             nextId = 13, effects = []\<rparr>"

text \<open>A balanced journal: 100 credited to the receivable account for customer 41, 100 debited to cash.\<close>

definition dtoBalanced :: manualJournalDTO where
  "dtoBalanced = \<lparr>date = ''2021-03-01'', journalNumber = Value ''J-3'', description = Absent,
      publish = True, entries = [entryReceivable, entryCash]\<rparr>"

text \<open>A credit of 5 against a debit of 3.\<close>

definition entryCredit5 :: manualJournalEntry where
  "entryCredit5 = \<lparr>index = 1, accountId = 30, credit = Some (Finite 5), debit = None,
                    contactId = None, contactType = None\<rparr>"

definition entryDebit3 :: manualJournalEntry where
  "entryDebit3 = \<lparr>index = 3, accountId = 30, credit = None, debit = Some (Finite 3),
                    contactId = None, contactType = None\<rparr>"

definition dtoUnbalanced :: manualJournalDTO where
  "dtoUnbalanced = \<lparr>date = ''2021-03-01'', journalNumber = Value ''J-3'', description = Absent,
      publish = False, entries = [entryCredit5, entryDebit3]\<rparr>"

text \<open>
  Credits of \<open>2 ^ 53\<close> and 1 against a debit of \<open>2 ^ 53\<close>: the exact sum of the credits,
  \<open>2 ^ 53 + 1\<close>, is not a double.
\<close>

definition dtoRounded :: manualJournalDTO where
  "dtoRounded = \<lparr>date = ''2021-03-01'', journalNumber = Value ''J-3'', description = Absent,
      publish = False,
      entries = [entryCredit5\<lparr>credit := Some (Finite 9007199254740992)\<rparr>,
                 entryCredit5\<lparr>index := 2, credit := Some (Finite 1)\<rparr>,
                 entryDebit3\<lparr>debit := Some (Finite 9007199254740992)\<rparr>]\<rparr>"

text \<open>
  Credits of 0.1 and 0.2 against a debit of 0.3, each the double nearest to the decimal.
\<close>

definition double_0_1 :: rat where
  "double_0_1 = 3602879701896397 / 36028797018963968"

definition double_0_3 :: rat where
  "double_0_3 = 5404319552844595 / 18014398509481984"

definition dtoDecimals :: manualJournalDTO where
  "dtoDecimals = \<lparr>date = ''2021-03-01'', journalNumber = Value ''J-3'', description = Absent,
      publish = False,
      entries = [entryCredit5\<lparr>credit := Some (Finite double_0_1)\<rparr>,
                 entryCredit5\<lparr>index := 2, credit := Some (Finite double_0_2)\<rparr>,
                 entryDebit3\<lparr>debit := Some (Finite double_0_3)\<rparr>]\<rparr>"

text \<open>Two entries with the contacts 98 and 99, which the tenant does not have.\<close>

definition dtoAbsentContacts :: manualJournalDTO where
  "dtoAbsentContacts = \<lparr>date = ''2021-03-01'', journalNumber = Value ''J-3'', description = Absent,
      publish = False,
      entries = [entryReceivable\<lparr>contactId := Some 98\<rparr>,
                 entryReceivable\<lparr>index := 2, contactId := Some 99\<rparr>,
                 entryCash\<lparr>index := 3, debit := Some (Finite 200)\<rparr>]\<rparr>"

text \<open>The balanced journal with the empty string as its journal number.\<close>

definition dtoEmptyNumber :: manualJournalDTO where
  "dtoEmptyNumber = dtoBalanced\<lparr>journalNumber := Value []\<rparr>"

section \<open>Rounding to the nearest double\<close>

text \<open>The nearest integer: integers are fixed, and the result is monotone in the argument.\<close>

lemma rne_of_int [simp]: "rne (of_int n) = n"
  by (simp add: rne_def)

lemma floor_le_rne: "\<lfloor>x\<rfloor> \<le> rne x"
  by (simp add: rne_def Let_def)

lemma rne_lower: "of_int n \<le> x \<Longrightarrow> n \<le> rne x"
  using floor_le_rne [of x] by (simp add: le_floor_iff [symmetric])

lemma rne_upper: "x \<le> of_int n \<Longrightarrow> rne x \<le> n"
proof -
  assume a: "x \<le> of_int n"
  have f: "\<lfloor>x\<rfloor> \<le> n" using floor_mono [OF a] by simp
  show ?thesis
  proof (cases "\<lfloor>x\<rfloor> = n")
    case True
    then have "x = of_int n" using a by (metis of_int_floor_le order_antisym)
    then show ?thesis by simp
  next
    case False
    with f have "\<lfloor>x\<rfloor> + 1 \<le> n" by simp
    then show ?thesis by (auto simp: rne_def Let_def)
  qed
qed

text \<open>How to evaluate it: at a number that is nearer than a half to an integer, and at a tie.\<close>

lemma rne_near: "\<bar>x - of_int m\<bar> < 1 / 2 \<Longrightarrow> rne x = m"
proof -
  assume a: "\<bar>x - of_int m\<bar> < 1 / 2"
  show ?thesis
  proof (cases "of_int m \<le> x")
    case True
    with a have "\<lfloor>x\<rfloor> = m" by (intro floor_unique) (auto simp: abs_if split: if_splits)
    with a True show ?thesis by (auto simp: rne_def Let_def abs_if split: if_splits)
  next
    case False
    with a have "\<lfloor>x\<rfloor> = m - 1" by (intro floor_unique) (auto simp: abs_if split: if_splits)
    with a False show ?thesis by (auto simp: rne_def Let_def abs_if split: if_splits)
  qed
qed

lemma rne_tie_down: "x = of_int m + 1 / 2 \<Longrightarrow> even m \<Longrightarrow> rne x = m"
proof -
  assume a: "x = of_int m + 1 / 2" and e: "even m"
  have "\<lfloor>x\<rfloor> = m" using a by (intro floor_unique) auto
  with a e show ?thesis by (simp add: rne_def Let_def)
qed

lemma rne_tie_up: "x = of_int m - 1 / 2 \<Longrightarrow> even m \<Longrightarrow> rne x = m"
proof -
  assume a: "x = of_int m - 1 / 2" and e: "even m"
  have "\<lfloor>x\<rfloor> = m - 1" using a by (intro floor_unique) auto
  with a e show ?thesis by (simp add: rne_def Let_def)
qed

text \<open>The binary logarithm: \<open>ilog2 x\<close> is the one exponent \<open>k\<close> with \<open>2 powi k \<le> x < 2 powi (k + 1)\<close>.\<close>

lemma of_int_le_pow2: "(c::int) \<le> 2 ^ n \<Longrightarrow> (of_int c :: rat) \<le> 2 ^ n"
proof -
  assume "c \<le> 2 ^ n"
  then have "(of_int c :: rat) \<le> of_int (2 ^ n)" by (simp only: of_int_le_iff)
  then show ?thesis by simp
qed

lemma pow2_le_of_int: "2 ^ n \<le> (c::int) \<Longrightarrow> (2 ^ n :: rat) \<le> of_int c"
proof -
  assume "2 ^ n \<le> c"
  then have "(of_int (2 ^ n) :: rat) \<le> of_int c" by (simp only: of_int_le_iff)
  then show ?thesis by simp
qed

lemma ilog2_bounds:
  assumes "0 < x"
  shows "2 powi ilog2 x \<le> x" and "x < 2 powi (ilog2 x + 1)"
proof -
  have "2 powi ilog2 x \<le> x \<and> x < 2 powi (ilog2 x + 1)"
  proof (cases "1 \<le> x")
    case True
    define m where "m = \<lfloor>x\<rfloor>"
    have m: "0 < m" using True by (simp add: m_def)
    then have b: "1 \<le> bitlen m" by (simp add: bitlen_alt_def)
    from bitlen_bounds [OF m] have lo: "2 ^ nat (bitlen m - 1) \<le> m" and hi: "m < 2 ^ nat (bitlen m)"
      by simp_all
    have "(2::rat) powi (bitlen m - 1) = 2 ^ nat (bitlen m - 1)"
      using b by (simp add: power_int_def)
    also have "\<dots> \<le> of_int m" using lo by (rule pow2_le_of_int)
    also have "\<dots> \<le> x" by (simp add: m_def)
    finally have l: "2 powi (bitlen m - 1) \<le> x" .
    have "m + 1 \<le> 2 ^ nat (bitlen m)" using hi by simp
    then have "(of_int (m + 1) :: rat) \<le> 2 ^ nat (bitlen m)" by (rule of_int_le_pow2)
    moreover have "x < of_int (m + 1)" using floor_correct [of x] by (simp add: m_def)
    ultimately have "x < 2 ^ nat (bitlen m)" by linarith
    also have "\<dots> = 2 powi (bitlen m)" using b by (simp add: power_int_def)
    finally have "x < 2 powi (bitlen m - 1 + 1)" by simp
    with l True show ?thesis by (simp add: ilog2_def m_def)
  next
    case False
    define c where "c = \<lceil>1 / x\<rceil>"
    define k where "k = bitlen (c - 1)"
    have y: "1 < 1 / x" using False assms by simp
    then have c: "2 \<le> c" by (simp add: c_def le_ceiling_iff)
    then have c1: "0 < c - 1" by simp
    then have k: "1 \<le> k" by (simp add: k_def bitlen_alt_def)
    from bitlen_bounds [OF c1] have lo: "2 ^ nat (k - 1) \<le> c - 1" and hi: "c - 1 < 2 ^ nat k"
      by (simp_all add: k_def)
    have "of_int (c - 1) < 1 / x" unfolding c_def by linarith
    moreover have "(2 ^ nat (k - 1) :: rat) \<le> of_int (c - 1)"
      using lo by (rule pow2_le_of_int)
    ultimately have a: "2 ^ nat (k - 1) < 1 / x" by linarith
    have "1 / x \<le> of_int c" by (simp add: c_def)
    moreover have "c \<le> 2 ^ nat k" using hi by simp
    then have "(of_int c :: rat) \<le> 2 ^ nat k" by (rule of_int_le_pow2)
    ultimately have b: "1 / x \<le> 2 ^ nat k" by linarith
    have p: "(0::rat) < 2 ^ nat k" "(0::rat) < 2 ^ nat (k - 1)" by simp_all
    from b assms have "1 / 2 ^ nat k \<le> x"
      by (simp add: field_simps)
    moreover have "(2::rat) powi (- k) = 1 / 2 ^ nat k"
      using k by (simp add: power_int_def field_simps)
    ultimately have l: "2 powi (- k) \<le> x" by simp
    from a assms have "x < 1 / 2 ^ nat (k - 1)"
      by (simp add: field_simps)
    moreover have "(2::rat) powi (- k + 1) = 1 / 2 ^ nat (k - 1)"
    proof -
      have "- k + 1 = - (k - 1)" by simp
      then have "(2::rat) powi (- k + 1) = inverse (2 powi (k - 1))"
        by (simp only: power_int_minus)
      also have "(2::rat) powi (k - 1) = 2 ^ nat (k - 1)" using k by (simp add: power_int_def)
      finally show ?thesis by (simp add: field_simps)
    qed
    ultimately have "x < 2 powi (- k + 1)" by simp
    with l False show ?thesis by (simp add: ilog2_def c_def k_def)
  qed
  then show "2 powi ilog2 x \<le> x" and "x < 2 powi (ilog2 x + 1)" by simp_all
qed

lemma ilog2_unique:
  assumes "0 < x" and "2 powi k \<le> x" and "x < 2 powi (k + 1)"
  shows "ilog2 x = k"
proof (rule ccontr)
  assume n: "ilog2 x \<noteq> k"
  note b = ilog2_bounds [OF assms(1)]
  show False
  proof (cases "ilog2 x < k")
    case True
    then have "ilog2 x + 1 \<le> k" by simp
    then have "(2::rat) powi (ilog2 x + 1) \<le> 2 powi k" by (intro power_int_increasing) simp_all
    with b(2) assms(2) show False by simp
  next
    case False
    with n have "k + 1 \<le> ilog2 x" by simp
    then have "(2::rat) powi (k + 1) \<le> 2 powi ilog2 x" by (intro power_int_increasing) simp_all
    with b(1) assms(3) show False by simp
  qed
qed

text \<open>
  The quantum: outside the subnormal range the quotient of a number by its quantum lies
  between \<open>2 powi 52\<close> and \<open>2 powi 53\<close>, which also determines the quantum.
\<close>

lemma pow2_add: "(2::rat) powi (a + b) = 2 powi a * 2 powi b"
  by (rule power_int_add) simp

lemma quantum_cases:
  assumes "x \<noteq> 0"
  shows "- 1074 \<le> quantum x" and "\<bar>x\<bar> / 2 powi quantum x < 2 powi 53"
    and "2 powi 52 \<le> \<bar>x\<bar> / 2 powi quantum x \<or> quantum x = - 1074"
proof -
  define k where "k = ilog2 \<bar>x\<bar>"
  define e where "e = quantum x"
  have pos: "0 < \<bar>x\<bar>" using assms by simp
  note b = ilog2_bounds [OF pos, folded k_def]
  have e: "e = max (k - 52) (- 1074)" by (simp add: e_def quantum_def k_def)
  have p: "(0::rat) < 2 powi e" by simp
  show "- 1074 \<le> quantum x" using e by (simp add: e_def [symmetric])
  have "k + 1 \<le> e + 53" using e by simp
  then have "(2::rat) powi (k + 1) \<le> 2 powi (e + 53)" by (intro power_int_increasing) simp_all
  with b(2) have "\<bar>x\<bar> < 2 powi (e + 53)" by (rule less_le_trans)
  then have "\<bar>x\<bar> < 2 powi 53 * 2 powi e" by (simp only: pow2_add mult.commute)
  then have "\<bar>x\<bar> / 2 powi e < 2 powi 53" by (simp only: pos_divide_less_eq [OF p])
  then show "\<bar>x\<bar> / 2 powi quantum x < 2 powi 53" by (simp only: e_def)
  show "2 powi 52 \<le> \<bar>x\<bar> / 2 powi quantum x \<or> quantum x = - 1074"
  proof (cases "e = - 1074")
    case True
    then show ?thesis by (simp only: e_def) simp
  next
    case False
    with e have "k = e + 52" by simp
    with b(1) have "2 powi (e + 52) \<le> \<bar>x\<bar>" by simp
    then have "2 powi 52 * 2 powi e \<le> \<bar>x\<bar>" by (simp only: pow2_add mult.commute)
    then have "2 powi 52 \<le> \<bar>x\<bar> / 2 powi e" by (simp only: pos_le_divide_eq [OF p])
    then show ?thesis by (simp only: e_def) simp
  qed
qed

lemma quantum_unique:
  assumes "x \<noteq> 0" and "- 1074 \<le> e" and "\<bar>x\<bar> / 2 powi e < 2 powi 53"
    and "2 powi 52 \<le> \<bar>x\<bar> / 2 powi e \<or> e = - 1074"
  shows "quantum x = e"
proof -
  have pos: "0 < \<bar>x\<bar>" using assms(1) by simp
  have p: "(0::rat) < 2 powi e" by simp
  have "\<bar>x\<bar> < 2 powi 53 * 2 powi e" using assms(3) by (simp only: pos_divide_less_eq [OF p])
  then have hi: "\<bar>x\<bar> < 2 powi (e + 53)" by (simp only: pow2_add mult.commute)
  show ?thesis
  proof (cases "2 powi 52 \<le> \<bar>x\<bar> / 2 powi e")
    case True
    then have "2 powi 52 * 2 powi e \<le> \<bar>x\<bar>" by (simp only: pos_le_divide_eq [OF p])
    then have lo: "2 powi (e + 52) \<le> \<bar>x\<bar>" by (simp only: pow2_add mult.commute)
    have "e + 52 + 1 = e + 53" by simp
    with hi have hi': "\<bar>x\<bar> < 2 powi (e + 52 + 1)" by (simp only:)
    have "ilog2 \<bar>x\<bar> = e + 52" using pos lo hi' by (rule ilog2_unique)
    with assms(2) show ?thesis by (simp add: quantum_def)
  next
    case False
    with assms(4) have e: "e = - 1074" by simp
    have "ilog2 \<bar>x\<bar> < e + 52"
    proof (rule ccontr)
      assume "\<not> ilog2 \<bar>x\<bar> < e + 52"
      then have "e + 52 \<le> ilog2 \<bar>x\<bar>" by simp
      then have "(2::rat) powi (e + 52) \<le> 2 powi ilog2 \<bar>x\<bar>" by (intro power_int_increasing) simp_all
      also have "\<dots> \<le> \<bar>x\<bar>" by (rule ilog2_bounds [OF pos])
      finally have "2 powi 52 * 2 powi e \<le> \<bar>x\<bar>" by (simp only: pow2_add mult.commute)
      then have "2 powi 52 \<le> \<bar>x\<bar> / 2 powi e" by (simp only: pos_le_divide_eq [OF p])
      with False show False by simp
    qed
    with e show ?thesis by (simp add: quantum_def)
  qed
qed

text \<open>Rounding is odd and keeps the sign.\<close>

lemma roundDouble_zero [simp]: "roundDouble 0 = 0"
  by (simp add: roundDouble_def)

lemma quantum_minus [simp]: "quantum (- x) = quantum x"
  by (simp add: quantum_def)

lemma roundDouble_minus: "roundDouble (- x) = - roundDouble x"
  by (simp add: roundDouble_def)

lemma roundDouble_nonneg: "0 \<le> x \<Longrightarrow> 0 \<le> roundDouble x"
proof (cases "x = 0")
  case True
  then show ?thesis by simp
next
  case False
  assume "0 \<le> x"
  with False have x: "0 < x" by simp
  have "(of_int 0 :: rat) \<le> \<bar>x\<bar> / 2 powi quantum x" by simp
  then have "0 \<le> rne (\<bar>x\<bar> / 2 powi quantum x)" by (rule rne_lower)
  then show ?thesis using x by (simp add: roundDouble_def)
qed

lemma roundDouble_eval:
  assumes "x \<noteq> 0" and "- 1074 \<le> e" and "\<bar>x\<bar> / 2 powi e < 2 powi 53"
    and "2 powi 52 \<le> \<bar>x\<bar> / 2 powi e \<or> e = - 1074"
  shows "roundDouble x = sgn x * (of_int (rne (\<bar>x\<bar> / 2 powi e)) * 2 powi e)"
  using assms(1) quantum_unique [OF assms] by (simp add: roundDouble_def)

text \<open>A number whose quotient by its quantum is an integer is a double.\<close>

lemma roundDouble_fixed:
  assumes "\<bar>x\<bar> / 2 powi quantum x = of_int n"
  shows "roundDouble x = x"
proof (cases "x = 0")
  case True
  then show ?thesis by simp
next
  case False
  have "of_int n * 2 powi quantum x = \<bar>x\<bar>"
    using assms [symmetric] by simp
  then show ?thesis using False assms by (simp add: roundDouble_def sgn_if abs_if split: if_splits)
qed

text \<open>
  An integer of at most 53 bits times a power of two, the exponent at least \<open>- 1074\<close>, is a
  fixed point of rounding; so rounding is idempotent.
\<close>

lemma pow2_quotient:
  assumes "q \<le> e"
  shows "(2::rat) powi e / 2 powi q = of_int (2 ^ nat (e - q))"
proof -
  have "(2::rat) powi e / 2 powi q = 2 powi (e - q)" by (simp add: power_int_diff)
  also have "\<dots> = 2 ^ nat (e - q)" using assms by (simp add: power_int_def)
  finally show ?thesis by simp
qed

lemma dyadic_double:
  assumes "- 1074 \<le> e" and "\<bar>m\<bar> \<le> 2 ^ 53"
  shows "roundDouble (of_int m * 2 powi e) = of_int m * 2 powi e"
proof (cases "m = 0")
  case True
  then show ?thesis by simp
next
  case False
  define x :: rat where "x = of_int m * 2 powi e"
  have x0: "x \<noteq> 0" using False by (simp add: x_def)
  have ax: "\<bar>x\<bar> = of_int \<bar>m\<bar> * 2 powi e" by (simp add: x_def abs_mult)
  show ?thesis
  proof (cases "\<bar>m\<bar> = 2 ^ 53")
    case True
    have "(of_int \<bar>m\<bar> :: rat) = 2 powi 53" by (simp only: True) simp
    then have "\<bar>x\<bar> = 2 powi 53 * 2 powi e" by (simp only: ax)
    also have "\<dots> = 2 powi (52 + (e + 1))" by (simp only: pow2_add [symmetric]) simp
    also have "\<dots> = 2 powi 52 * 2 powi (e + 1)" by (rule pow2_add)
    finally have s: "\<bar>x\<bar> / 2 powi (e + 1) = 2 powi 52" by simp
    have "quantum x = e + 1"
    proof (rule quantum_unique [OF x0])
      show "- 1074 \<le> e + 1" using assms(1) by simp
      show "\<bar>x\<bar> / 2 powi (e + 1) < 2 powi 53" by (simp only: s) simp
      show "2 powi 52 \<le> \<bar>x\<bar> / 2 powi (e + 1) \<or> e + 1 = - 1074" by (simp only: s) simp
    qed
    with s have "\<bar>x\<bar> / 2 powi quantum x = of_int (2 ^ 52)" by simp
    then have "roundDouble x = x" by (rule roundDouble_fixed)
    then show ?thesis by (simp only: x_def)
  next
    case False
    with assms(2) have lt: "\<bar>m\<bar> < 2 ^ 53" by simp
    define q where "q = quantum x"
    define Pe :: rat where "Pe = 2 powi e"
    define Pq :: rat where "Pq = 2 powi q"
    define am :: rat where "am = of_int \<bar>m\<bar>"
    have pe: "0 < Pe" and pq: "0 < Pq" by (simp_all add: Pe_def Pq_def)
    have qe: "q \<le> e"
    proof (rule ccontr)
      assume "\<not> q \<le> e"
      then have e1: "e + 1 \<le> q" by simp
      with assms(1) have "q \<noteq> - 1074" by simp
      with quantum_cases(3) [OF x0] have "2 powi 52 \<le> \<bar>x\<bar> / Pq" by (simp add: q_def Pq_def)
      then have "2 powi 52 * Pq \<le> \<bar>x\<bar>" by (simp only: pos_le_divide_eq [OF pq])
      then have lo: "4503599627370496 * Pq \<le> am * Pe" by (simp add: ax am_def Pe_def)
      have "(2::rat) powi (e + 1) \<le> 2 powi q" using e1 by (intro power_int_increasing) simp_all
      then have "Pe * 2 \<le> Pq" by (simp only: pow2_add Pe_def Pq_def) simp
      moreover have "am < 9007199254740992"
      proof -
        have "(of_int \<bar>m\<bar> :: rat) < of_int (2 ^ 53)" using lt by (simp only: of_int_less_iff)
        then show ?thesis by (simp add: am_def)
      qed
      then have "am * Pe < 9007199254740992 * Pe" using pe by (rule mult_strict_right_mono)
      ultimately have "am * Pe < 4503599627370496 * Pq" by linarith
      with lo show False by simp
    qed
    have "\<bar>x\<bar> / 2 powi q = of_int \<bar>m\<bar> * (2 powi e / 2 powi q)" by (simp add: ax)
    also have "\<dots> = of_int (\<bar>m\<bar> * 2 ^ nat (e - q))"
      by (simp only: pow2_quotient [OF qe] of_int_mult)
    finally have "roundDouble x = x" unfolding q_def by (rule roundDouble_fixed)
    then show ?thesis by (simp only: x_def)
  qed
qed

lemma roundDouble_dyadic:
  "\<exists>m e. roundDouble x = of_int m * 2 powi e \<and> - 1074 \<le> e \<and> \<bar>m\<bar> \<le> 2 ^ 53"
proof (cases "x = 0")
  case True
  have "roundDouble x = of_int 0 * 2 powi 0" using True by simp
  then show ?thesis by (intro exI [of _ 0] exI [of _ "0::int"]) simp
next
  case False
  define q where "q = quantum x"
  define M where "M = rne (\<bar>x\<bar> / 2 powi q)"
  note c = quantum_cases [OF False, folded q_def]
  have "(of_int 0 :: rat) \<le> \<bar>x\<bar> / 2 powi q" by simp
  then have lo: "0 \<le> M" unfolding M_def by (rule rne_lower)
  have "\<bar>x\<bar> / 2 powi q \<le> of_int (2 ^ 53)" using c(2) by simp
  then have hi: "M \<le> 2 ^ 53" unfolding M_def by (rule rne_upper)
  have "roundDouble x = of_int (if 0 < x then M else - M) * 2 powi q"
    using False by (simp add: roundDouble_def q_def M_def sgn_if)
  moreover have "\<bar>if 0 < x then M else - M\<bar> \<le> 2 ^ 53" using lo hi by simp
  ultimately show ?thesis using c(1) by blast
qed

lemma roundDouble_idem [simp]: "roundDouble (roundDouble x) = roundDouble x"
proof -
  obtain m e where "roundDouble x = of_int m * 2 powi e" "- 1074 \<le> e" "\<bar>m\<bar> \<le> 2 ^ 53"
    using roundDouble_dyadic by blast
  then show ?thesis by (simp add: dyadic_double)
qed

text \<open>Rounding does not take a number within the range of the doubles out of it.\<close>

lemma maxDouble_alt: "maxDouble = of_int (2 ^ 53 - 1) * 2 powi 971"
  by (simp add: maxDouble_def)

lemma maxDouble_pos: "0 < maxDouble"
  by (simp add: maxDouble_def)

lemma roundDouble_pos_form:
  assumes "0 < x"
  shows "roundDouble x = of_int (rne (x / 2 powi quantum x)) * 2 powi quantum x"
  using assms by (simp add: roundDouble_def)

lemma roundDouble_le_max:
  assumes "0 \<le> x" and "x \<le> maxDouble"
  shows "roundDouble x \<le> maxDouble"
proof (cases "x = 0")
  case True
  then show ?thesis using maxDouble_pos by simp
next
  case False
  with assms(1) have x: "0 < x" by simp
  define q where "q = quantum x"
  define Pq :: rat where "Pq = 2 powi q"
  define M where "M = rne (x / Pq)"
  have pq: "0 < Pq" by (simp add: Pq_def)
  have ax: "\<bar>x\<bar> = x" using x by simp
  note c = quantum_cases [OF False, folded q_def, unfolded ax, folded Pq_def]
  have r: "roundDouble x = of_int M * Pq"
    using roundDouble_pos_form [OF x] by (simp add: M_def Pq_def q_def)
  have P53: "(2::rat) powi 53 = of_int (2 ^ 53)" by simp
  have "x / Pq \<le> of_int (2 ^ 53)" using c(2) by (simp only: P53)
  then have M53: "M \<le> 2 ^ 53" unfolding M_def by (rule rne_upper)
  have lt: "maxDouble < 2 powi 1024"
  proof -
    have "(2::rat) powi 1024 = 2 ^ 53 * 2 powi 971" by (simp add: power_int_add [symmetric])
    then show ?thesis by (simp add: maxDouble_alt)
  qed
  have q971: "q \<le> 971"
  proof (rule ccontr)
    assume "\<not> q \<le> 971"
    then have q: "972 \<le> q" by simp
    then have "q \<noteq> - 1074" by simp
    with c(3) have "2 powi 52 \<le> x / Pq" by simp
    then have "2 powi 52 * Pq \<le> x" by (simp only: pos_le_divide_eq [OF pq])
    then have "2 powi (q + 52) \<le> x" by (simp only: pow2_add Pq_def mult.commute)
    moreover have "(2::rat) powi 1024 \<le> 2 powi (q + 52)"
      using q by (intro power_int_increasing) simp_all
    ultimately show False using assms(2) lt by linarith
  qed
  show ?thesis
  proof (cases "q = 971")
    case True
    have "x / Pq \<le> maxDouble / Pq" using assms(2) pq by (simp add: divide_right_mono)
    also have "\<dots> = of_int (2 ^ 53 - 1)" by (simp add: maxDouble_alt Pq_def True)
    finally have "M \<le> 2 ^ 53 - 1" unfolding M_def by (rule rne_upper)
    then have "(of_int M :: rat) \<le> of_int (2 ^ 53 - 1)" by (simp only: of_int_le_iff)
    then have "of_int M * Pq \<le> of_int (2 ^ 53 - 1) * Pq" using pq by (simp add: mult_right_mono)
    then show ?thesis by (simp only: r maxDouble_alt Pq_def True)
  next
    case False
    with q971 have "q \<le> 970" by simp
    then have "Pq \<le> 2 powi 970" unfolding Pq_def by (intro power_int_increasing) simp_all
    moreover have "(of_int M :: rat) \<le> of_int (2 ^ 53)" using M53 by (simp only: of_int_le_iff)
    then have "of_int M * Pq \<le> of_int (2 ^ 53) * Pq" using pq by (simp add: mult_right_mono)
    moreover have "(2::rat) powi 971 = 2 * 2 powi 970" by (simp add: power_int_add [symmetric])
    ultimately have "of_int M * Pq \<le> 4503599627370496 * 2 powi 971" by simp
    also have "\<dots> \<le> maxDouble" by (simp add: maxDouble_alt)
    finally show ?thesis by (simp only: r)
  qed
qed

lemma roundDouble_abs_le_max:
  assumes "\<bar>x\<bar> \<le> maxDouble"
  shows "\<bar>roundDouble x\<bar> \<le> maxDouble"
proof (cases "0 \<le> x")
  case True
  with assms roundDouble_le_max [of x] roundDouble_nonneg [of x] show ?thesis by simp
next
  case False
  then have "0 \<le> - x" "- x \<le> maxDouble" using assms by simp_all
  with roundDouble_le_max [of "- x"] roundDouble_nonneg [of "- x"] show ?thesis
    by (simp add: roundDouble_minus)
qed

text \<open>Doubles: the rounded numbers within the range, among them the integers up to \<open>2 ^ 53\<close>.\<close>

lemma isDouble_roundDouble: "\<bar>roundDouble x\<bar> \<le> maxDouble \<Longrightarrow> isDouble (roundDouble x)"
  by (simp add: isDouble_def)

lemma isDouble_dyadic:
  "- 1074 \<le> e \<Longrightarrow> \<bar>m\<bar> \<le> 2 ^ 53 \<Longrightarrow> \<bar>of_int m * 2 powi e\<bar> \<le> maxDouble \<Longrightarrow>
   isDouble (of_int m * 2 powi e)"
  by (simp add: isDouble_def dyadic_double)

lemma isDouble_of_int: "\<bar>n\<bar> \<le> 2 ^ 53 \<Longrightarrow> isDouble (of_int n)"
proof -
  assume n: "\<bar>n\<bar> \<le> 2 ^ 53"
  then have "(of_int \<bar>n\<bar> :: rat) \<le> of_int (2 ^ 53)" by (simp only: of_int_le_iff)
  also have "\<dots> \<le> maxDouble" by (simp add: maxDouble_def)
  finally have "\<bar>of_int n * 2 powi 0\<bar> \<le> maxDouble" by simp
  with n isDouble_dyadic [of 0 n] show ?thesis by simp
qed

lemma isDouble_zero [simp]: "isDouble 0"
  using isDouble_of_int [of 0] by simp

lemma isDouble_numeral: "numeral k \<le> (2 ^ 53 :: int) \<Longrightarrow> isDouble (numeral k)"
  using isDouble_of_int [of "numeral k"] by simp

text \<open>
  How to evaluate the rounding of a positive number: with an exponent \<open>e\<close> that puts the
  quotient between \<open>2 powi 52\<close> and \<open>2 powi 53\<close>, round the quotient.
\<close>

lemma roundDouble_pos_eval:
  assumes "0 < x" and "- 1074 \<le> e" and "2 powi 52 \<le> x / 2 powi e" and "x / 2 powi e < 2 powi 53"
    and "rne (x / 2 powi e) = m"
  shows "roundDouble x = of_int m * 2 powi e"
proof -
  have "x \<noteq> 0" "\<bar>x\<bar> = x" "sgn x = 1" using assms(1) by simp_all
  with roundDouble_eval [of x e] assms show ?thesis by simp
qed

lemma roundDouble_pos_near:
  assumes "0 < x" and "- 1074 \<le> e" and "2 powi 52 \<le> x / 2 powi e" and "x / 2 powi e < 2 powi 53"
    and "\<bar>x / 2 powi e - of_int m\<bar> < 1 / 2"
  shows "roundDouble x = of_int m * 2 powi e"
  using assms(1-4) rne_near [OF assms(5)] by (rule roundDouble_pos_eval)

lemma roundDouble_pos_tie:
  assumes "0 < x" and "- 1074 \<le> e" and "2 powi 52 \<le> x / 2 powi e" and "x / 2 powi e < 2 powi 53"
    and "x / 2 powi e = of_int m + 1 / 2 \<or> x / 2 powi e = of_int m - 1 / 2" and "even m"
  shows "roundDouble x = of_int m * 2 powi e"
proof -
  have "rne (x / 2 powi e) = m"
    using assms(5,6) rne_tie_down [of "x / 2 powi e" m] rne_tie_up [of "x / 2 powi e" m] by blast
  with assms(1-4) show ?thesis by (rule roundDouble_pos_eval)
qed

section \<open>JavaScript arithmetic on amounts\<close>

lemma fromRat_double: "isDouble x \<Longrightarrow> fromRat x = Finite x"
  by (auto simp: fromRat_def isDouble_def Let_def)

lemma fromRat_zero [simp]: "fromRat 0 = Finite 0"
  by (simp add: fromRat_double)

lemma fromRat_numeral [simp]:
  "numeral k \<le> (2 ^ 53 :: int) \<Longrightarrow> fromRat (numeral k) = Finite (numeral k)"
  by (simp add: fromRat_double isDouble_numeral)

lemma isDouble_one [simp]: "isDouble 1"
  using isDouble_of_int [of 1] by simp

lemma fromRat_one [simp]: "fromRat 1 = Finite 1"
  by (simp add: fromRat_double)

lemma fromRat_nonneg: "0 \<le> x \<Longrightarrow> nonNegativeOrInfinity (fromRat x)"
proof -
  assume x: "0 \<le> x"
  have "0 \<le> roundDouble x" using x by (rule roundDouble_nonneg)
  moreover have "isDouble (roundDouble x)" if "\<not> maxDouble < roundDouble x"
    using that \<open>0 \<le> roundDouble x\<close> by (intro isDouble_roundDouble) simp
  ultimately show ?thesis
    using maxDouble_pos by (auto simp: fromRat_def Let_def nonNegativeOrInfinity_def)
qed

lemma fromRat_bounded:
  assumes "0 \<le> x" and "x \<le> maxDouble"
  shows "fromRat x = Finite (roundDouble x)" and "nonNegative (fromRat x)"
proof -
  have n: "0 \<le> roundDouble x" using assms(1) by (rule roundDouble_nonneg)
  have m: "roundDouble x \<le> maxDouble" using assms by (rule roundDouble_le_max)
  show e: "fromRat x = Finite (roundDouble x)"
    using n m maxDouble_pos by (simp add: fromRat_def Let_def)
  show "nonNegative (fromRat x)"
    using n m isDouble_roundDouble [of x] by (simp add: e)
qed

lemma nonNegative_cases:
  "nonNegative n \<longleftrightarrow> (\<exists>x. n = Finite x \<and> 0 \<le> x \<and> isDouble x)"
  by (cases n) auto

lemma nonNegativeOrInfinity_simps [simp]:
  "nonNegativeOrInfinity (Finite x) \<longleftrightarrow> 0 \<le> x \<and> isDouble x"
  "nonNegativeOrInfinity PosInfinity"
  "\<not> nonNegativeOrInfinity NegInfinity"
  "\<not> nonNegativeOrInfinity NaN"
  by (simp_all add: nonNegativeOrInfinity_def)

lemma nonNegative_imp [simp]: "nonNegative n \<Longrightarrow> nonNegativeOrInfinity n"
  by (simp add: nonNegativeOrInfinity_def)

lemma js_add_zero_right [simp]: "nonNegativeOrInfinity n \<Longrightarrow> js_add n (Finite 0) = n"
  by (cases n) (simp_all add: fromRat_double)

lemma js_add_zero_left [simp]: "nonNegativeOrInfinity n \<Longrightarrow> js_add (Finite 0) n = n"
  by (cases n) (simp_all add: fromRat_double)

lemma js_add_nonNegative:
  "nonNegativeOrInfinity a \<Longrightarrow> nonNegativeOrInfinity b \<Longrightarrow> nonNegativeOrInfinity (js_add a b)"
  by (cases a; cases b) (simp_all add: fromRat_nonneg)

lemma js_gt_zero: "nonNegativeOrInfinity n \<Longrightarrow> \<not> js_gt n (Finite 0) \<Longrightarrow> n = Finite 0"
  by (cases n) (auto simp: js_gt_def)



lemma amountOf_simps [simp]: "amountOf None = Finite 0" "amountOf (Some n) = n"
  by (simp_all add: amountOf_def)

lemma nonNegativeAmount_simps [simp]:
  "nonNegativeAmount None" "nonNegativeAmount (Some n) = nonNegative n"
  by (simp_all add: nonNegativeAmount_def)

lemma nonNegativeAmount_amountOf: "nonNegativeAmount v \<Longrightarrow> nonNegativeOrInfinity (amountOf v)"
  by (cases v) simp_all

lemma orZero_simps [simp]:
  "orZero None = Finite 0" "orZero (Some NaN) = Finite 0" "n \<noteq> NaN \<Longrightarrow> orZero (Some n) = n"
  by (simp_all add: orZero_def)

lemma orZero_nonNegative [simp]: "nonNegativeOrInfinity n \<Longrightarrow> orZero (Some n) = n"
  by (cases n) simp_all

section \<open>The sums of the credits and of the debits\<close>






lemma fold_addEntryTotals:
  "nonNegativeOrInfinity c \<Longrightarrow> nonNegativeOrInfinity d \<Longrightarrow> nonNegativeEntries es \<Longrightarrow>
   fold addEntryTotals es (c, d)
     = (foldl js_add c (map amountOf (map credit es)), foldl js_add d (map amountOf (map debit es)))"
proof (induction es arbitrary: c d)
  case Nil
  then show ?case by simp
next
  case (Cons e es)
  have e: "nonNegativeAmount (credit e)" "nonNegativeAmount (debit e)" and es: "nonNegativeEntries es"
    using Cons.prems(3) by (simp_all add: nonNegativeEntries_def)
  define c' where "c' = js_add c (amountOf (credit e))"
  define d' where "d' = js_add d (amountOf (debit e))"
  have c': "nonNegativeOrInfinity c'" and d': "nonNegativeOrInfinity d'"
    using Cons.prems(1,2) e by (simp_all add: c'_def d'_def js_add_nonNegative nonNegativeAmount_amountOf)
  have "addEntryTotals e (c, d) = (c', d')"
    using Cons.prems(1,2) e
    by (auto simp: addEntryTotals_def Let_def c'_def d'_def dest: js_gt_zero [rotated] split: option.splits)
  then show ?case
    using Cons.IH [OF c' d' es] by (simp add: c'_def d'_def)
qed

lemma creditDebitTotals_eq:
  "nonNegativeEntries es \<Longrightarrow>
   creditDebitTotals es = (sumOfAmounts (map credit es), sumOfAmounts (map debit es))"
  by (simp add: creditDebitTotals_def fold_addEntryTotals sumOfAmounts_def)


lemma valdiateCreditDebitTotalEquals_eq:
  assumes "nonNegativeEntries (entries dto)"
  shows "valdiateCreditDebitTotalEquals dto =
     (let sumCredit = sumOfAmounts (map credit (entries dto));
          sumDebit = sumOfAmounts (map debit (entries dto))
      in if js_le sumCredit (Finite 0) \<or> js_le sumDebit (Finite 0)
         then Inl CREDIT_DEBIT_NOT_EQUAL_ZERO
         else if js_neq sumCredit sumDebit then Inl CREDIT_DEBIT_NOT_EQUAL
         else Inr ())"
  by (simp add: valdiateCreditDebitTotalEquals_def creditDebitTotals_eq [OF assms] Let_def)


lemma foldl_js_add_naturals:
  "a + sum_list ks \<le> 2 ^ 53 \<Longrightarrow>
   foldl js_add (Finite (of_nat a)) (map (\<lambda>k. amountOf (Some (Finite (of_nat k)))) ks)
     = Finite (of_nat (a + sum_list ks))"
proof (induction ks arbitrary: a)
  case Nil
  then show ?case by simp
next
  case (Cons k ks)
  have "a + k \<le> 2 ^ 53" using Cons.prems by simp
  then have "\<bar>int (a + k)\<bar> \<le> 2 ^ 53" by (simp add: of_nat_le_iff [of "a + k" "2 ^ 53", where ?'a = int, simplified])
  then have "isDouble (of_int (int (a + k)))" by (rule isDouble_of_int)
  then have "js_add (Finite (of_nat a)) (Finite (of_nat k)) = Finite (of_nat (a + k))"
    by (simp add: fromRat_double)
  then show ?case using Cons.IH [of "a + k"] Cons.prems by (simp add: add.assoc)
qed

text \<open>
  As long as it stays within \<open>2 ^ 53\<close>, the sum of a column of natural numbers is the sum
  in the ordinary sense.
\<close>

lemma sumOfAmounts_naturals:
  "sum_list ks \<le> 2 ^ 53 \<Longrightarrow>
   sumOfAmounts (map (\<lambda>k. Some (Finite (of_nat k))) ks) = Finite (of_nat (sum_list ks))"
  using foldl_js_add_naturals [of 0 ks] by (simp add: sumOfAmounts_def comp_def)

section \<open>Basic facts about the model\<close>

lemma withEntries_simps [simp]:
  "mj_id (withEntries r es) = mj_id r"
  "mj_journalNumber (withEntries r es) = mj_journalNumber r"
  "mj_date (withEntries r es) = mj_date r"
  "mj_description (withEntries r es) = mj_description r"
  "mj_amount (withEntries r es) = mj_amount r"
  "mj_publishedAt (withEntries r es) = mj_publishedAt r"
  "mj_userId (withEntries r es) = mj_userId r"
  "mj_entries (withEntries r es) = es"
  "manualJournalRow.truncate (withEntries r es) = r"
  by (simp_all add: withEntries_def manualJournalRow.extend_def manualJournal.fields_def
        manualJournalRow.truncate_def)

lemma withGraphFetched_simps [simp]:
  "mj_id (withGraphFetched st r) = mj_id r"
  "mj_publishedAt (withGraphFetched st r) = mj_publishedAt r"
  "mj_amount (withGraphFetched st r) = mj_amount r"
  "manualJournalRow.truncate (withGraphFetched st r) = r"
  by (simp_all add: withGraphFetched_def)

lemma issue_simps [simp]:
  "journalsTable (issue e st) = journalsTable st"
  "entriesTable (issue e st) = entriesTable st"
  "accountsTable (issue e st) = accountsTable st"
  "contactsTable (issue e st) = contactsTable st"
  "nextId (issue e st) = nextId st"
  "effects (issue e st) = effects st @ [e]"
  by (simp_all add: issue_def)

lemma dispatch_simps [simp]:
  "journalsTable (dispatch ev st) = journalsTable st"
  "entriesTable (dispatch ev st) = entriesTable st"
  "accountsTable (dispatch ev st) = accountsTable st"
  "contactsTable (dispatch ev st) = contactsTable st"
  "nextId (dispatch ev st) = nextId st"
  "effects (dispatch ev st) = effects st @ [Dispatch ev]"
  by (simp_all add: dispatch_def)

lemma findById_dispatch [simp]: "findById (dispatch ev st) i = findById st i"
  by (simp add: findById_def)

lemma findById_Some: "findById st i = Some r \<Longrightarrow> mj_id r = i \<and> r \<in> set (journalsTable st)"
  unfolding findById_def by (auto simp: find_Some_iff)

lemma findById_None: "findById st i = None \<longleftrightarrow> i \<notin> mj_id ` set (journalsTable st)"
  unfolding findById_def by (auto simp: find_None_iff)

lemma patchRow_simps [simp]:
  "mj_id (patchRow g r) = mj_id r"
  "mj_amount (patchRow g r) = g_amount g"
  "mj_date (patchRow g r) = g_date g"
  "mj_publishedAt (patchRow g r) = patched (g_publishedAt g) (mj_publishedAt r)"
  "mj_journalNumber (patchRow g r) = patched (g_journalNumber g) (mj_journalNumber r)"
  by (simp_all add: patchRow_def)

lemma find_map_patch:
  "(\<And>r. mj_id (f r) = mj_id r) \<Longrightarrow>
   find (\<lambda>r. mj_id r = i) (map (\<lambda>r. if mj_id r = i then f r else r) rows)
     = map_option f (find (\<lambda>r. mj_id r = i) rows)"
  by (induction rows) simp_all

lemma upsertGraph_insert:
  "g_id g = None \<Longrightarrow>
   upsertGraph st g =
     (Inr (withEntries (newRow (nextId st) g) (g_entries g)),
      issue (UpsertGraph g)
        (st\<lparr>journalsTable := journalsTable st @ [newRow (nextId st) g],
            entriesTable := entriesTable st @ map (Pair (nextId st)) (g_entries g),
            nextId := Suc (nextId st)\<rparr>))"
  by (simp add: upsertGraph_def Let_def)

lemma upsertGraph_patch:
  "g_id g = Some i \<Longrightarrow> findById st i = Some old \<Longrightarrow>
   upsertGraph st g =
     (Inr (withEntries (patchRow g old) (g_entries g)),
      issue (UpsertGraph g)
        (st\<lparr>journalsTable := map (\<lambda>r. if mj_id r = i then patchRow g r else r) (journalsTable st),
            entriesTable := filter (\<lambda>p. fst p \<noteq> i) (entriesTable st) @ map (Pair i) (g_entries g)\<rparr>))"
  by (simp add: upsertGraph_def)

lemma getManualJournalsOrThrowError_eq:
  "getManualJournalsOrThrowError st ids =
     (if set ids \<subseteq> mj_id ` set (journalsTable st)
      then Inr (map (withGraphFetched st) (whereInId st ids))
      else Inl NOT_FOUND)"
proof -
  have m: "map mj_id (map (withGraphFetched st) (whereInId st ids)) = map mj_id (whereInId st ids)"
    by simp
  have "difference ids (map mj_id (whereInId st ids)) = [] \<longleftrightarrow> set ids \<subseteq> mj_id ` set (journalsTable st)"
    by (auto simp: difference_def whereInId_def filter_empty_conv)
  then show ?thesis
    by (simp add: getManualJournalsOrThrowError_def Let_def m del: map_map)
qed

lemma result_cases:
  obtains (Error) e st' where "R = (Inl e, st')" | (Ok) x st' where "R = (Inr x, st')"
  by (cases R; cases "fst R") auto

lemma isl_fst_cases:
  "isl (fst R) \<or> (\<exists>x st'. R = (Inr x, st'))"
  by (cases R; cases "fst R") auto

section \<open>Create and edit, step by step\<close>

lemma transformNew_Inr:
  "transformNewDTOToModel E dto u = Inr g \<Longrightarrow>
   g_id g = None \<and> g_amount g = orZero (sumBy (entries dto) credit) \<and> g_entries g = entries dto
   \<and> g_journalNumber g = Value (orElse (journalNumber dto) (nextTransactionNumber E))
   \<and> orElse (journalNumber dto) (nextTransactionNumber E) \<noteq> []
   \<and> g_publishedAt g = (if publish dto then Value (now E) else Absent)"
  by (auto simp: transformNewDTOToModel_def validateJournalNoRequire_def Let_def split: if_splits)

lemma transformEdit_simps [simp]:
  "g_id (transformEditDTOToModel E dto old) = Some (mj_id old)"
  "g_amount (transformEditDTOToModel E dto old) = orZero (sumBy (entries dto) credit)"
  "g_entries (transformEditDTOToModel E dto old) = entries dto"
  "g_journalNumber (transformEditDTOToModel E dto old) = journalNumber dto"
  "g_publishedAt (transformEditDTOToModel E dto old)
     = (if publish dto \<and> \<not> truthy_str (mj_publishedAt old) then Value (now E) else Absent)"
  by (simp_all add: transformEditDTOToModel_def Let_def)

text \<open>What a successful create has gone through.\<close>

lemma makeJournalEntries_Inr:
  assumes "makeJournalEntries E st dto u = (Inr mj, st')"
  obtains g where "transformNewDTOToModel E dto u = Inr g"
    and "valdiateCreditDebitTotalEquals dto = Inr ()"
    and "validateContactsExistance st dto = Inr ()"
    and "validateAccountsExistance st dto = Inr ()"
    and "validateManualJournalNoUnique st (orElse (journalNumber dto) (nextTransactionNumber E)) None = Inr ()"
    and "dynamicValidateAccountsWithContactType E st (entries dto) = Inr ()"
    and "mj = withEntries (newRow (nextId st) g) (entries dto)"
    and "st' = dispatch (onCreated mj)
           (issue (UpsertGraph g)
             (st\<lparr>journalsTable := journalsTable st @ [newRow (nextId st) g],
                 entriesTable := entriesTable st @ map (Pair (nextId st)) (entries dto),
                 nextId := Suc (nextId st)\<rparr>))"
proof -
  from assms obtain g where g: "transformNewDTOToModel E dto u = Inr g"
    by (auto simp: makeJournalEntries_def split: sum.splits)
  note tg = transformNew_Inr [OF g]
  have num: "orElse (g_journalNumber g) [] = orElse (journalNumber dto) (nextTransactionNumber E)"
    using tg by (simp add: orElse_def)
  from assms g have v: "valdiateCreditDebitTotalEquals dto = Inr ()"
      "validateContactsExistance st dto = Inr ()"
      "validateAccountsExistance st dto = Inr ()"
      "validateManualJournalNoUnique st (orElse (g_journalNumber g) []) None = Inr ()"
      "dynamicValidateAccountsWithContactType E st (entries dto) = Inr ()"
    by (auto simp: makeJournalEntries_def split: sum.splits)
  from assms g v have "(case upsertGraph st g of (Inl e, st1) \<Rightarrow> (Inl e, st1)
      | (Inr manualJournal, st1) \<Rightarrow> (Inr manualJournal, dispatch (onCreated manualJournal) st1))
      = (Inr mj, st')"
    by (simp add: makeJournalEntries_def)
  then have "mj = withEntries (newRow (nextId st) g) (entries dto)"
    and "st' = dispatch (onCreated mj)
           (issue (UpsertGraph g)
             (st\<lparr>journalsTable := journalsTable st @ [newRow (nextId st) g],
                 entriesTable := entriesTable st @ map (Pair (nextId st)) (entries dto),
                 nextId := Suc (nextId st)\<rparr>))"
    using tg by (auto simp: upsertGraph_insert)
  with that g v num show thesis by simp
qed


lemma makeJournalEntries_ok:
  assumes "orElse (journalNumber dto) (nextTransactionNumber E) \<noteq> []"
    and "valdiateCreditDebitTotalEquals dto = Inr ()"
    and "validateContactsExistance st dto = Inr ()"
    and "validateAccountsExistance st dto = Inr ()"
    and "validateManualJournalNoUnique st (orElse (journalNumber dto) (nextTransactionNumber E)) None = Inr ()"
    and "dynamicValidateAccountsWithContactType E st (entries dto) = Inr ()"
  shows "\<not> isl (fst (makeJournalEntries E st dto u))"
proof -
  obtain g where g: "transformNewDTOToModel E dto u = Inr g"
    using assms(1) by (simp add: transformNewDTOToModel_def validateJournalNoRequire_def Let_def)
  note tg = transformNew_Inr [OF g]
  have num: "orElse (g_journalNumber g) [] = orElse (journalNumber dto) (nextTransactionNumber E)"
    using tg by (simp add: orElse_def)
  have "g_id g = None" using tg by simp
  from upsertGraph_insert [OF this, of st] g assms num show ?thesis
    by (simp add: makeJournalEntries_def)
qed

lemma editJournalEntries_not_found:
  "findById st i = None \<Longrightarrow> editJournalEntries E st i dto u = (Inl NOT_FOUND, st)"
  by (simp add: editJournalEntries_def getManualJournalOrThrowError_def)

text \<open>What a successful edit has gone through.\<close>

lemma editJournalEntries_Inr:
  assumes "editJournalEntries E st i dto u = (Inr res, st')"
  obtains old g st1 where "findById st i = Some old"
    and "g = transformEditDTOToModel E dto (withGraphFetched st old)"
    and "valdiateCreditDebitTotalEquals dto = Inr ()"
    and "validateContactsExistance st dto = Inr ()"
    and "validateAccountsExistance st dto = Inr ()"
    and "(case journalNumber dto of Absent \<Rightarrow> Inr () | Null \<Rightarrow> Inr ()
          | Value n \<Rightarrow> if n \<noteq> [] then validateManualJournalNoUnique st n (Some i) else Inr ()) = Inr ()"
    and "dynamicValidateAccountsWithContactType E st (entries dto) = Inr ()"
    and "st1 = issue (UpsertGraph g)
           (st\<lparr>journalsTable := map (\<lambda>r. if mj_id r = i then patchRow g r else r) (journalsTable st),
               entriesTable := filter (\<lambda>p. fst p \<noteq> i) (entriesTable st) @ map (Pair i) (entries dto)\<rparr>)"
    and "findById st1 i = Some (patchRow g old)"
    and "res = (Some (withGraphFetched st1 (patchRow g old)), withGraphFetched st old)"
    and "st' = dispatch (onEdited (fst res) (snd res)) st1"
proof -
  from assms obtain old where old: "findById st i = Some old"
    by (cases "findById st i") (auto simp: editJournalEntries_not_found)
  then have idold: "mj_id old = i" by (simp add: findById_Some)
  define g where "g = transformEditDTOToModel E dto (withGraphFetched st old)"
  define st1 where "st1 = issue (UpsertGraph g)
           (st\<lparr>journalsTable := map (\<lambda>r. if mj_id r = i then patchRow g r else r) (journalsTable st),
               entriesTable := filter (\<lambda>p. fst p \<noteq> i) (entriesTable st) @ map (Pair i) (entries dto)\<rparr>)"
  have up: "upsertGraph st g = (Inr (withEntries (patchRow g old) (entries dto)), st1)"
    using upsertGraph_patch [of g i st old] old idold by (simp add: g_def st1_def)
  have f1: "findById st1 i = Some (patchRow g old)"
    using old by (simp add: findById_def st1_def find_map_patch)
  from assms old have v: "valdiateCreditDebitTotalEquals dto = Inr ()"
      "validateContactsExistance st dto = Inr ()"
      "validateAccountsExistance st dto = Inr ()"
      "(case journalNumber dto of Absent \<Rightarrow> Inr () | Null \<Rightarrow> Inr ()
          | Value n \<Rightarrow> if n \<noteq> [] then validateManualJournalNoUnique st n (Some i) else Inr ()) = Inr ()"
      "dynamicValidateAccountsWithContactType E st (entries dto) = Inr ()"
    by (auto simp: editJournalEntries_def getManualJournalOrThrowError_def Let_def split: sum.splits)
  from assms old v up f1 have r: "res = (Some (withGraphFetched st1 (patchRow g old)), withGraphFetched st old)"
      "st' = dispatch (onEdited (fst res) (snd res)) st1"
    by (auto simp: editJournalEntries_def getManualJournalOrThrowError_def Let_def g_def)
  from that [OF old g_def v st1_def f1 r] show thesis .
qed

lemma editJournalEntries_Inl:
  assumes "editJournalEntries E st i dto u = (Inl e, st')"
  shows "st' = st"
proof (cases "findById st i")
  case None
  with assms show ?thesis by (simp add: editJournalEntries_not_found)
next
  case (Some old)
  then have "mj_id old = i" by (simp add: findById_Some)
  with Some have "fst (upsertGraph st (transformEditDTOToModel E dto (withGraphFetched st old)))
      = Inr (withEntries (patchRow (transformEditDTOToModel E dto (withGraphFetched st old)) old) (entries dto))"
    using upsertGraph_patch [of "transformEditDTOToModel E dto (withGraphFetched st old)" i st old]
    by simp
  with assms Some show ?thesis
    by (auto simp: editJournalEntries_def getManualJournalOrThrowError_def Let_def
          split: sum.splits prod.splits)
qed

lemma editJournalEntries_ok:
  assumes "findById st i = Some old"
    and "valdiateCreditDebitTotalEquals dto = Inr ()"
    and "validateContactsExistance st dto = Inr ()"
    and "validateAccountsExistance st dto = Inr ()"
    and "(case journalNumber dto of Absent \<Rightarrow> Inr () | Null \<Rightarrow> Inr ()
          | Value n \<Rightarrow> if n \<noteq> [] then validateManualJournalNoUnique st n (Some i) else Inr ()) = Inr ()"
    and "dynamicValidateAccountsWithContactType E st (entries dto) = Inr ()"
  shows "\<not> isl (fst (editJournalEntries E st i dto u))"
proof -
  have "mj_id old = i" using assms(1) by (simp add: findById_Some)
  then have "g_id (transformEditDTOToModel E dto (withGraphFetched st old)) = Some i" by simp
  from upsertGraph_patch [OF this assms(1)] assms show ?thesis
    by (simp add: editJournalEntries_def getManualJournalOrThrowError_def Let_def)
qed

lemma edit_success_tables:
  assumes "\<not> isl (fst (editJournalEntries E st i dto u))" and "findById st i = Some old"
  shows "journalsTable (snd (editJournalEntries E st i dto u))
           = map (\<lambda>r. if mj_id r = i
                      then patchRow (transformEditDTOToModel E dto (withGraphFetched st old)) r
                      else r) (journalsTable st)"
    and "accountsTable (snd (editJournalEntries E st i dto u)) = accountsTable st"
    and "contactsTable (snd (editJournalEntries E st i dto u)) = contactsTable st"
proof -
  from assms(1) obtain res st' where r: "editJournalEntries E st i dto u = (Inr res, st')"
    using isl_fst_cases [of "editJournalEntries E st i dto u"] by auto
  from r obtain old' g st1 where o: "findById st i = Some old'"
    and g: "g = transformEditDTOToModel E dto (withGraphFetched st old')"
    and st1: "st1 = issue (UpsertGraph g)
           (st\<lparr>journalsTable := map (\<lambda>r. if mj_id r = i then patchRow g r else r) (journalsTable st),
               entriesTable := filter (\<lambda>p. fst p \<noteq> i) (entriesTable st) @ map (Pair i) (entries dto)\<rparr>)"
    and st': "st' = dispatch (onEdited (fst res) (snd res)) st1"
    by (rule editJournalEntries_Inr)
  from o assms(2) have "old' = old" by simp
  with r g st1 st' show "journalsTable (snd (editJournalEntries E st i dto u))
           = map (\<lambda>r. if mj_id r = i
                      then patchRow (transformEditDTOToModel E dto (withGraphFetched st old)) r
                      else r) (journalsTable st)"
    and "accountsTable (snd (editJournalEntries E st i dto u)) = accountsTable st"
    and "contactsTable (snd (editJournalEntries E st i dto u)) = contactsTable st"
    by simp_all
qed

lemma validation_reads:
  "contactsTable st' = contactsTable st \<Longrightarrow>
     validateContactsExistance st' dto = validateContactsExistance st dto"
  "accountsTable st' = accountsTable st \<Longrightarrow>
     validateAccountsExistance st' dto = validateAccountsExistance st dto"
  "accountsTable st' = accountsTable st \<Longrightarrow>
     dynamicValidateAccountsWithContactType E st' es = dynamicValidateAccountsWithContactType E st es"
  by (simp_all add: validateContactsExistance_def validateAccountsExistance_def
        dynamicValidateAccountsWithContactType_def validateAccountWithContactType_def Let_def)



lemma make_contacts_error:
  "orElse (journalNumber dto) (nextTransactionNumber E) \<noteq> [] \<Longrightarrow>
   valdiateCreditDebitTotalEquals dto = Inr () \<Longrightarrow>
   validateContactsExistance st dto = Inl e \<Longrightarrow>
   makeJournalEntries E st dto u = (Inl e, st)"
  by (simp add: makeJournalEntries_def transformNewDTOToModel_def validateJournalNoRequire_def Let_def)

lemma make_unique_error:
  "orElse (journalNumber dto) (nextTransactionNumber E) \<noteq> [] \<Longrightarrow>
   valdiateCreditDebitTotalEquals dto = Inr () \<Longrightarrow>
   validateContactsExistance st dto = Inr () \<Longrightarrow>
   validateAccountsExistance st dto = Inr () \<Longrightarrow>
   validateManualJournalNoUnique st (orElse (journalNumber dto) (nextTransactionNumber E)) None = Inl e \<Longrightarrow>
   makeJournalEntries E st dto u = (Inl e, st)"
  by (simp add: makeJournalEntries_def transformNewDTOToModel_def validateJournalNoRequire_def
        Let_def orElse_def split: property.splits if_splits)

lemma edit_unique_error:
  "findById st i \<noteq> None \<Longrightarrow>
   valdiateCreditDebitTotalEquals dto = Inr () \<Longrightarrow>
   validateContactsExistance st dto = Inr () \<Longrightarrow>
   validateAccountsExistance st dto = Inr () \<Longrightarrow>
   journalNumber dto = Value n \<Longrightarrow> n \<noteq> [] \<Longrightarrow>
   validateManualJournalNoUnique st n (Some i) = Inl e \<Longrightarrow>
   editJournalEntries E st i dto u = (Inl e, st)"
  by (auto simp: editJournalEntries_def getManualJournalOrThrowError_def Let_def)

section \<open>The example tenant\<close>

lemmas example_defs = env0_def user0_def entryReceivable_def entryCash_def rowDraft_def
  rowPublished_def store0_def dtoBalanced_def entryCredit5_def entryDebit3_def dtoUnbalanced_def

lemmas validation_defs = valdiateCreditDebitTotalEquals_def creditDebitTotals_def addEntryTotals_def
  validateContactsExistance_def pushNotFound_def mapGet_def contactsMap_def
  validateAccountsExistance_def difference_def validateManualJournalNoUnique_def
  validateAccountWithContactType_def dynamicValidateAccountsWithContactType_def
  validateJournalNoRequire_def truthy_num_def truthy_str_def orElse_def
  js_gt_def js_le_def js_neq_def

lemma dtoBalanced_valid:
  "valdiateCreditDebitTotalEquals dtoBalanced = Inr ()"
  "validateContactsExistance store0 dtoBalanced = Inr ()"
  "validateAccountsExistance store0 dtoBalanced = Inr ()"
  "validateManualJournalNoUnique store0 ''J-3'' None = Inr ()"
  "validateManualJournalNoUnique store0 ''J-3'' (Some 11) = Inr ()"
  "dynamicValidateAccountsWithContactType env0 store0 (entries dtoBalanced) = Inr ()"
  by (simp_all add: example_defs validation_defs)

lemma findById_store0 [simp]:
  "findById store0 11 = Some rowDraft" "findById store0 12 = Some rowPublished"
  "findById store0 5 = None"
  by (simp_all add: findById_def store0_def rowDraft_def rowPublished_def)



lemma dtoBalanced_edit_valid:
  "journalNumber (dtoBalanced\<lparr>publish := b\<rparr>) = Value ''J-3''"
  "valdiateCreditDebitTotalEquals (dtoBalanced\<lparr>publish := b\<rparr>) = Inr ()"
  "validateContactsExistance store0 (dtoBalanced\<lparr>publish := b\<rparr>) = Inr ()"
  "validateAccountsExistance store0 (dtoBalanced\<lparr>publish := b\<rparr>) = Inr ()"
  "validateManualJournalNoUnique store0 ''J-3'' (Some 12) = Inr ()"
  "dynamicValidateAccountsWithContactType env0 store0 (entries (dtoBalanced\<lparr>publish := b\<rparr>)) = Inr ()"
  by (simp_all add: example_defs validation_defs)

lemma edit_dtoBalanced_ok':
  "\<not> isl (fst (editJournalEntries env0 store0 11 (dtoBalanced\<lparr>publish := b\<rparr>) user0))"
  "\<not> isl (fst (editJournalEntries env0 store0 12 (dtoBalanced\<lparr>publish := b\<rparr>) user0))"
  by (rule editJournalEntries_ok [of _ _ rowDraft], simp_all add: dtoBalanced_edit_valid dtoBalanced_valid)
     (rule editJournalEntries_ok [of _ _ rowPublished], simp_all add: dtoBalanced_edit_valid dtoBalanced_valid)

lemma dtoBalanced_number_valid:
  "entries (dtoBalanced\<lparr>journalNumber := x\<rparr>) = entries dtoBalanced"
  "journalNumber (dtoBalanced\<lparr>journalNumber := x\<rparr>) = x"
  "valdiateCreditDebitTotalEquals (dtoBalanced\<lparr>journalNumber := x\<rparr>) = Inr ()"
  "validateContactsExistance store0 (dtoBalanced\<lparr>journalNumber := x\<rparr>) = Inr ()"
  "validateAccountsExistance store0 (dtoBalanced\<lparr>journalNumber := x\<rparr>) = Inr ()"
  by (simp_all add: example_defs validation_defs)

section \<open>The balance rule\<close>

text \<open>
  In double precision the credits \<open>2 ^ 53\<close> and 1 add up to \<open>2 ^ 53\<close>, so they balance a
  debit of \<open>2 ^ 53\<close>.
\<close>

lemma roundDouble_2_53_plus_1: "roundDouble (9007199254740992 + 1) = 9007199254740992"
  using roundDouble_pos_tie [of "9007199254740992 + 1" 1 4503599627370496]
  by simp

lemma dtoRounded_balanced:
  "nonNegativeEntries (entries dtoRounded)"
  "sumOfAmounts (map credit (entries dtoRounded)) = Finite 9007199254740992"
  "valdiateCreditDebitTotalEquals dtoRounded = Inr ()"
proof -
  have m: "(9007199254740992 :: rat) \<le> maxDouble" by (simp add: maxDouble_def)
  have a: "js_add (Finite 9007199254740992) (Finite 1) = Finite 9007199254740992"
    using roundDouble_2_53_plus_1 m by (simp add: fromRat_def Let_def)
  show n: "nonNegativeEntries (entries dtoRounded)"
    by (simp add: dtoRounded_def entryCredit5_def entryDebit3_def nonNegativeEntries_def
          isDouble_numeral)
  show s: "sumOfAmounts (map credit (entries dtoRounded)) = Finite 9007199254740992"
    using a by (simp add: sumOfAmounts_def dtoRounded_def entryCredit5_def entryDebit3_def)
  have d: "sumOfAmounts (map debit (entries dtoRounded)) = Finite 9007199254740992"
    by (simp add: sumOfAmounts_def dtoRounded_def entryCredit5_def entryDebit3_def)
  show "valdiateCreditDebitTotalEquals dtoRounded = Inr ()"
    by (simp add: valdiateCreditDebitTotalEquals_eq [OF n] s d js_le_def js_neq_def)
qed

text \<open>
  In double precision 0.1 + 0.2 is the double above 0.3, so the credits 0.1 and 0.2 do not
  balance a debit of 0.3.
\<close>

lemma decimal_doubles_balance:
  "roundDouble (1 / 10) = double_0_1" "roundDouble (3 / 10) = double_0_3"
  "js_add (Finite double_0_1) (Finite double_0_2) = Finite (5404319552844596 / 18014398509481984)"
proof -
  show "roundDouble (1 / 10) = double_0_1" "roundDouble (3 / 10) = double_0_3"
    using roundDouble_pos_near [of "1 / 10" "- 56" 7205759403792794]
      roundDouble_pos_near [of "3 / 10" "- 54" 5404319552844595]
    by (simp_all add: double_0_1_def double_0_3_def)
  have m: "(1 :: rat) \<le> maxDouble" by (simp add: maxDouble_def)
  have "roundDouble (double_0_1 + double_0_2) = 5404319552844596 / 18014398509481984"
    using roundDouble_pos_tie [of "double_0_1 + double_0_2" "- 54" 5404319552844596]
    by (simp add: double_0_1_def double_0_2_def)
  then show "js_add (Finite double_0_1) (Finite double_0_2)
      = Finite (5404319552844596 / 18014398509481984)"
    using m by (simp add: fromRat_def Let_def)
qed

lemma dtoDecimals_unbalanced:
  "nonNegativeEntries (entries dtoDecimals)"
  "valdiateCreditDebitTotalEquals dtoDecimals = Inl CREDIT_DEBIT_NOT_EQUAL"
proof -
  have d: "isDouble double_0_1" "isDouble double_0_2" "isDouble double_0_3"
    using isDouble_dyadic [of "- 55" 3602879701896397] isDouble_dyadic [of "- 54" 3602879701896397]
      isDouble_dyadic [of "- 54" 5404319552844595]
    by (simp_all add: double_0_1_def double_0_2_def double_0_3_def maxDouble_def)
  have p: "0 \<le> double_0_1" "0 \<le> double_0_2" "0 \<le> double_0_3"
    by (simp_all add: double_0_1_def double_0_2_def double_0_3_def)
  show n: "nonNegativeEntries (entries dtoDecimals)"
    using d p by (simp add: dtoDecimals_def entryCredit5_def entryDebit3_def nonNegativeEntries_def)
  have d': "isDouble (1351079888211149 / 4503599627370496)"
    using isDouble_dyadic [of "- 52" 1351079888211149] by (simp add: maxDouble_def)
  have s: "sumOfAmounts (map credit (entries dtoDecimals))
      = Finite (5404319552844596 / 18014398509481984)"
    using d d' p decimal_doubles_balance(3)
    by (simp add: sumOfAmounts_def dtoDecimals_def entryCredit5_def entryDebit3_def
          del: js_add.simps)
  have t: "sumOfAmounts (map debit (entries dtoDecimals)) = Finite double_0_3"
    using d p by (simp add: sumOfAmounts_def dtoDecimals_def entryCredit5_def entryDebit3_def
          del: js_add.simps)
  show "valdiateCreditDebitTotalEquals dtoDecimals = Inl CREDIT_DEBIT_NOT_EQUAL"
    by (simp add: valdiateCreditDebitTotalEquals_eq [OF n] s t js_le_def js_neq_def)
       (simp add: double_0_3_def)
qed



section \<open>The committed amount\<close>






lemma freshIds_issue [simp]: "freshIds (issue e st) = freshIds st"
  by (simp add: freshIds_def)

lemma freshIds_dispatch [simp]: "freshIds (dispatch ev st) = freshIds st"
  by (simp add: freshIds_def)



section \<open>Publishing\<close>

lemma publishManualJournal_already:
  "findById st i = Some old \<Longrightarrow> truthy_str (mj_publishedAt old) \<Longrightarrow>
   publishManualJournal E st i = (Inl MANUAL_JOURNAL_ALREADY_PUBLISHED, st)"
  by (simp add: publishManualJournal_def getManualJournalOrThrowError_def
        validateManualJournalIsNotPublished_def)

lemma distinct_ids_eq:
  "distinct (map mj_id rows) \<Longrightarrow> r \<in> set rows \<Longrightarrow> r' \<in> set rows \<Longrightarrow> mj_id r = mj_id r' \<Longrightarrow> r = r'"
  by (auto simp: distinct_map dest: inj_onD)

lemma notPublishedIds_mem:
  assumes "distinct (map mj_id (journalsTable st))" and "r \<in> set (journalsTable st)"
  shows "mj_id r \<in> set (map mj_id (getNonePublishedManualJournals
                                    (map (withGraphFetched st) (whereInId st ids))))
         \<longleftrightarrow> mj_id r \<in> set ids \<and> \<not> truthy_str (mj_publishedAt r)"
proof
  assume "mj_id r \<in> set (map mj_id (getNonePublishedManualJournals
                                    (map (withGraphFetched st) (whereInId st ids))))"
  then obtain r' where r': "r' \<in> set (journalsTable st)" "mj_id r' \<in> set ids"
      "\<not> truthy_str (mj_publishedAt r')" "mj_id r' = mj_id r"
    by (auto simp: getNonePublishedManualJournals_def whereInId_def)
  have "r = r'" by (rule distinct_ids_eq [OF assms(1) assms(2) r'(1) r'(4) [symmetric]])
  with r'(2,3) show "mj_id r \<in> set ids \<and> \<not> truthy_str (mj_publishedAt r)" by simp
next
  assume "mj_id r \<in> set ids \<and> \<not> truthy_str (mj_publishedAt r)"
  with assms(2) have "withGraphFetched st r \<in> set (getNonePublishedManualJournals
                                    (map (withGraphFetched st) (whereInId st ids)))"
    by (auto simp: getNonePublishedManualJournals_def whereInId_def)
  then have "mj_id (withGraphFetched st r) \<in> mj_id ` set (getNonePublishedManualJournals
                                    (map (withGraphFetched st) (whereInId st ids)))"
    by (rule imageI)
  then show "mj_id r \<in> set (map mj_id (getNonePublishedManualJournals
                                    (map (withGraphFetched st) (whereInId st ids))))"
    by simp
qed

lemma publish_counts:
  "length (getPublishedManualJournals (map (withGraphFetched st) rows))
     = length (filter (\<lambda>r. truthy_str (mj_publishedAt r)) rows)"
  "length (getNonePublishedManualJournals (map (withGraphFetched st) rows))
     = length (filter (\<lambda>r. \<not> truthy_str (mj_publishedAt r)) rows)"
  by (simp_all add: getPublishedManualJournals_def getNonePublishedManualJournals_def
        filter_map comp_def)

lemma publishManualJournals_table:
  assumes "distinct (map mj_id (journalsTable st))"
    and "set ids \<subseteq> mj_id ` set (journalsTable st)"
  shows "journalsTable (snd (publishManualJournals E st ids))
     = map (\<lambda>r. if mj_id r \<in> set ids \<and> \<not> truthy_str (mj_publishedAt r)
                then r\<lparr>mj_publishedAt := Some (now E)\<rparr> else r) (journalsTable st)"
proof -
  define nids where "nids = map mj_id (getNonePublishedManualJournals
                                    (map (withGraphFetched st) (whereInId st ids)))"
  have mem: "mj_id r \<in> set nids \<longleftrightarrow> mj_id r \<in> set ids \<and> \<not> truthy_str (mj_publishedAt r)"
    if "r \<in> set (journalsTable st)" for r
    unfolding nids_def using assms(1) that by (rule notPublishedIds_mem)
  have patched: "journalsTable (patchPublishedAt st nids (now E))
     = map (\<lambda>r. if mj_id r \<in> set ids \<and> \<not> truthy_str (mj_publishedAt r)
                then r\<lparr>mj_publishedAt := Some (now E)\<rparr> else r) (journalsTable st)"
    using mem by (simp add: patchPublishedAt_def)
  have same: "journalsTable st
     = map (\<lambda>r. if mj_id r \<in> set ids \<and> \<not> truthy_str (mj_publishedAt r)
                then r\<lparr>mj_publishedAt := Some (now E)\<rparr> else r) (journalsTable st)"
    if "nids = []"
  proof -
    have "\<not> (mj_id r \<in> set ids \<and> \<not> truthy_str (mj_publishedAt r))"
      if "r \<in> set (journalsTable st)" for r
      using mem [OF that] \<open>nids = []\<close> by simp
    then have "map (\<lambda>r. if mj_id r \<in> set ids \<and> \<not> truthy_str (mj_publishedAt r)
                then r\<lparr>mj_publishedAt := Some (now E)\<rparr> else r) (journalsTable st)
               = journalsTable st"
      by (intro map_idI) auto
    then show ?thesis by simp
  qed
  show ?thesis
    using assms(2) patched same
    by (simp add: publishManualJournals_def getManualJournalsOrThrowError_eq Let_def nids_def)
qed

text \<open>
  Claim C3. Publishing one journal whose \<open>publishedAt\<close> is set fails with
  \<open>MANUAL_JOURNAL_ALREADY_PUBLISHED\<close> and leaves the storage as it was. Publishing in bulk,
  with every id resolving to a journal, succeeds: the journals of the ids that are not
  published yet get the current time as \<open>publishedAt\<close>, every other row, among them the
  journals of the ids that are published already, stays as it was, and the counts
  returned are those of the two groups, which add up to the total.
\<close>

theorem publish_single_rejects_bulk_skips:
  assumes "distinct (map mj_id (journalsTable st))"
  shows "(\<forall>old. findById st i = Some old \<and> truthy_str (mj_publishedAt old) \<longrightarrow>
            publishManualJournal E st i = (Inl MANUAL_JOURNAL_ALREADY_PUBLISHED, st))
       \<and> (set ids \<subseteq> mj_id ` set (journalsTable st) \<longrightarrow>
            (\<exists>meta. fst (publishManualJournals E st ids) = Inr meta
               \<and> alreadyPublished meta
                    = length (filter (\<lambda>r. truthy_str (mj_publishedAt r)) (whereInId st ids))
               \<and> published meta
                    = length (filter (\<lambda>r. \<not> truthy_str (mj_publishedAt r)) (whereInId st ids))
               \<and> total_count meta = length (whereInId st ids)
               \<and> alreadyPublished meta + published meta = total_count meta)
          \<and> journalsTable (snd (publishManualJournals E st ids))
              = map (\<lambda>r. if mj_id r \<in> set ids \<and> \<not> truthy_str (mj_publishedAt r)
                         then r\<lparr>mj_publishedAt := Some (now E)\<rparr> else r) (journalsTable st)
          \<and> entriesTable (snd (publishManualJournals E st ids)) = entriesTable st)"
proof (intro conjI allI impI)
  fix old assume "findById st i = Some old \<and> truthy_str (mj_publishedAt old)"
  then show "publishManualJournal E st i = (Inl MANUAL_JOURNAL_ALREADY_PUBLISHED, st)"
    by (simp add: publishManualJournal_already)
next
  assume sub: "set ids \<subseteq> mj_id ` set (journalsTable st)"
  show "journalsTable (snd (publishManualJournals E st ids))
              = map (\<lambda>r. if mj_id r \<in> set ids \<and> \<not> truthy_str (mj_publishedAt r)
                         then r\<lparr>mj_publishedAt := Some (now E)\<rparr> else r) (journalsTable st)"
    using assms sub by (rule publishManualJournals_table)
  show "entriesTable (snd (publishManualJournals E st ids)) = entriesTable st"
    using sub
    by (simp add: publishManualJournals_def getManualJournalsOrThrowError_eq Let_def
          patchPublishedAt_def)
  have "length (filter (\<lambda>r. truthy_str (mj_publishedAt r)) (whereInId st ids))
        + length (filter (\<lambda>r. \<not> truthy_str (mj_publishedAt r)) (whereInId st ids))
        = length (whereInId st ids)"
    by (rule sum_length_filter_compl)
  then show "\<exists>meta. fst (publishManualJournals E st ids) = Inr meta
               \<and> alreadyPublished meta
                    = length (filter (\<lambda>r. truthy_str (mj_publishedAt r)) (whereInId st ids))
               \<and> published meta
                    = length (filter (\<lambda>r. \<not> truthy_str (mj_publishedAt r)) (whereInId st ids))
               \<and> total_count meta = length (whereInId st ids)
               \<and> alreadyPublished meta + published meta = total_count meta"
    using sub
    by (simp add: publishManualJournals_def getManualJournalsOrThrowError_eq Let_def
          publish_counts)
qed

theorem publish_single_rejects_bulk_skips_witness:
  "distinct (map mj_id (journalsTable store0))
   \<and> findById store0 12 = Some rowPublished \<and> truthy_str (mj_publishedAt rowPublished)
   \<and> publishManualJournal env0 store0 12 = (Inl MANUAL_JOURNAL_ALREADY_PUBLISHED, store0)
   \<and> set [11, 12] \<subseteq> mj_id ` set (journalsTable store0)
   \<and> (case fst (publishManualJournals env0 store0 [11, 12]) of
         Inl e \<Rightarrow> (0, 0, 0)
       | Inr meta \<Rightarrow> (alreadyPublished meta, published meta, total_count meta)) = (1, 1, 2)
   \<and> map mj_publishedAt (journalsTable (snd (publishManualJournals env0 store0 [11, 12])))
        = [Some ''2021-02-02 10:00:00'', Some ''2021-01-05 09:00:00'']"
proof -
  have d: "distinct (map mj_id (journalsTable store0))"
    by (simp add: store0_def rowDraft_def rowPublished_def)
  have f: "findById store0 12 = Some rowPublished" by simp
  have p: "truthy_str (mj_publishedAt rowPublished)"
    by (simp add: rowPublished_def truthy_str_def)
  have s: "set [11, 12] \<subseteq> mj_id ` set (journalsTable store0)"
    by (simp add: store0_def rowDraft_def rowPublished_def)
  have w: "whereInId store0 [11, 12] = [rowDraft, rowPublished]"
    by (simp add: whereInId_def store0_def rowDraft_def rowPublished_def)
  have c: "length (filter (\<lambda>r. truthy_str (mj_publishedAt r)) [rowDraft, rowPublished]) = 1"
      "length (filter (\<lambda>r. \<not> truthy_str (mj_publishedAt r)) [rowDraft, rowPublished]) = 1"
    by (simp_all add: rowDraft_def rowPublished_def truthy_str_def)
  have m: "map mj_publishedAt
             (map (\<lambda>r. if mj_id r \<in> set [11, 12] \<and> \<not> truthy_str (mj_publishedAt r)
                        then r\<lparr>mj_publishedAt := Some (now env0)\<rparr> else r) (journalsTable store0))
           = [Some ''2021-02-02 10:00:00'', Some ''2021-01-05 09:00:00'']"
    by (simp add: store0_def rowDraft_def rowPublished_def truthy_str_def env0_def)
  from publish_single_rejects_bulk_skips [OF d, of 12 env0 "[11, 12]"] f p s
  have "publishManualJournal env0 store0 12 = (Inl MANUAL_JOURNAL_ALREADY_PUBLISHED, store0)"
    and "\<exists>meta. fst (publishManualJournals env0 store0 [11, 12]) = Inr meta
           \<and> alreadyPublished meta = 1 \<and> published meta = 1 \<and> total_count meta = 2"
    and "map mj_publishedAt (journalsTable (snd (publishManualJournals env0 store0 [11, 12])))
        = [Some ''2021-02-02 10:00:00'', Some ''2021-01-05 09:00:00'']"
    using w c m by auto
  with d f p s show ?thesis by auto
qed

section \<open>Edit and the publication time\<close>

text \<open>
  Claim C4. For a stored journal, the edit operation leaves \<open>publishedAt\<close> as it is on
  every outcome but one: an edit that succeeds, with a DTO that asks to publish, on a
  journal that was not published yet. That one sets \<open>publishedAt\<close> to the current time.
  In particular a \<open>publishedAt\<close> that is set is never cleared or changed, whatever the
  publish flag of the DTO is.
\<close>

theorem edit_keeps_publishedAt:
  assumes "findById st i = Some old"
  shows "map_option mj_publishedAt (findById (snd (editJournalEntries E st i dto u)) i)
           = Some (if \<not> isl (fst (editJournalEntries E st i dto u)) \<and> publish dto
                      \<and> \<not> truthy_str (mj_publishedAt old)
                   then Some (now E) else mj_publishedAt old)
       \<and> (truthy_str (mj_publishedAt old) \<longrightarrow>
            map_option mj_publishedAt (findById (snd (editJournalEntries E st i dto u)) i)
              = Some (mj_publishedAt old))"
proof -
  have "map_option mj_publishedAt (findById (snd (editJournalEntries E st i dto u)) i)
           = Some (if \<not> isl (fst (editJournalEntries E st i dto u)) \<and> publish dto
                      \<and> \<not> truthy_str (mj_publishedAt old)
                   then Some (now E) else mj_publishedAt old)"
  proof (cases rule: result_cases [of "editJournalEntries E st i dto u"])
    case (Error e st')
    then have "st' = st" by (rule editJournalEntries_Inl)
    with Error assms show ?thesis by simp
  next
    case (Ok res st')
    from Ok obtain r g st1 where r: "findById st i = Some r"
      and g: "g = transformEditDTOToModel E dto (withGraphFetched st r)"
      and f: "findById st1 i = Some (patchRow g r)"
      and st': "st' = dispatch (onEdited (fst res) (snd res)) st1"
      by (rule editJournalEntries_Inr)
    from r assms have "r = old" by simp
    with Ok f show ?thesis by (simp add: st' g patched_def)
  qed
  then show ?thesis by (simp only: simp_thms if_False split: if_splits)
qed

theorem edit_keeps_publishedAt_witness:
  "findById store0 12 = Some rowPublished \<and> truthy_str (mj_publishedAt rowPublished)
   \<and> map_option mj_publishedAt
        (findById (snd (editJournalEntries env0 store0 12 (dtoBalanced\<lparr>publish := True\<rparr>) user0)) 12)
       = Some (Some ''2021-01-05 09:00:00'')
   \<and> map_option mj_publishedAt
        (findById (snd (editJournalEntries env0 store0 12 (dtoBalanced\<lparr>publish := False\<rparr>) user0)) 12)
       = Some (Some ''2021-01-05 09:00:00'')
   \<and> findById store0 11 = Some rowDraft
   \<and> map_option mj_publishedAt
        (findById (snd (editJournalEntries env0 store0 11 (dtoBalanced\<lparr>publish := True\<rparr>) user0)) 11)
       = Some (Some ''2021-02-02 10:00:00'')
   \<and> map_option mj_publishedAt
        (findById (snd (editJournalEntries env0 store0 11 (dtoBalanced\<lparr>publish := False\<rparr>) user0)) 11)
       = Some None"
proof -
  have p: "mj_publishedAt rowPublished = Some ''2021-01-05 09:00:00''"
    "mj_publishedAt rowDraft = None" "now env0 = ''2021-02-02 10:00:00''"
    by (simp_all add: rowPublished_def rowDraft_def env0_def)
  have f: "findById store0 12 = Some rowPublished" "findById store0 11 = Some rowDraft"
    by simp_all
  from edit_keeps_publishedAt [OF f(1), of env0 "dtoBalanced\<lparr>publish := True\<rparr>" user0]
    edit_keeps_publishedAt [OF f(1), of env0 "dtoBalanced\<lparr>publish := False\<rparr>" user0]
    edit_keeps_publishedAt [OF f(2), of env0 "dtoBalanced\<lparr>publish := True\<rparr>" user0]
    edit_keeps_publishedAt [OF f(2), of env0 "dtoBalanced\<lparr>publish := False\<rparr>" user0]
    edit_dtoBalanced_ok' [of True] edit_dtoBalanced_ok' [of False] p f
  show ?thesis by (simp add: truthy_str_def)
qed

section \<open>Uniqueness of the journal number\<close>

lemma validateManualJournalNoUnique_eq:
  "validateManualJournalNoUnique st n notId =
     (if \<exists>r\<in>set (journalsTable st).
            mj_journalNumber r = Some n \<and> (truthy_num notId \<longrightarrow> Some (mj_id r) \<noteq> notId)
      then Inl JOURNAL_NUMBER_EXISTS else Inr ())"
  by (auto simp: validateManualJournalNoUnique_def Let_def filter_empty_conv)

text \<open>
  The check itself fails with \<open>JOURNAL_NUMBER_EXISTS\<close> exactly when a journal of the
  tenant's storage holds the journal number, not counting, on edit, the journal of the
  edited id (ids are positive). Create runs the check on the journal number it has
  resolved: with a number that a journal holds, create fails, and with
  \<open>JOURNAL_NUMBER_EXISTS\<close> when the earlier rules pass. Edit runs the check when the DTO
  has a journal number that is not the empty string: with such a number held by another
  journal, edit fails, and with \<open>JOURNAL_NUMBER_EXISTS\<close> when the earlier rules pass; with
  such a number held by no other journal, as when the journal keeps its own number, the
  check passes and the edit succeeds when the other rules pass.
\<close>

lemma validateManualJournalNoUnique_rule:
  "validateManualJournalNoUnique st n None =
     (if \<exists>r\<in>set (journalsTable st). mj_journalNumber r = Some n
      then Inl JOURNAL_NUMBER_EXISTS else Inr ())
   \<and> (0 < i \<longrightarrow>
        validateManualJournalNoUnique st n (Some i) =
          (if \<exists>r\<in>set (journalsTable st). mj_journalNumber r = Some n \<and> mj_id r \<noteq> i
           then Inl JOURNAL_NUMBER_EXISTS else Inr ()))
   \<and> ((\<exists>r\<in>set (journalsTable st).
          mj_journalNumber r = Some (orElse (journalNumber dto) (nextTransactionNumber E))) \<longrightarrow>
        isl (fst (makeJournalEntries E st dto u))
      \<and> (orElse (journalNumber dto) (nextTransactionNumber E) \<noteq> []
          \<and> valdiateCreditDebitTotalEquals dto = Inr ()
          \<and> validateContactsExistance st dto = Inr ()
          \<and> validateAccountsExistance st dto = Inr () \<longrightarrow>
            makeJournalEntries E st dto u = (Inl JOURNAL_NUMBER_EXISTS, st)))
   \<and> (0 < i \<and> journalNumber dto = Value n \<and> n \<noteq> []
        \<and> (\<exists>r\<in>set (journalsTable st). mj_journalNumber r = Some n \<and> mj_id r \<noteq> i) \<longrightarrow>
        isl (fst (editJournalEntries E st i dto u))
      \<and> (findById st i \<noteq> None
          \<and> valdiateCreditDebitTotalEquals dto = Inr ()
          \<and> validateContactsExistance st dto = Inr ()
          \<and> validateAccountsExistance st dto = Inr () \<longrightarrow>
            editJournalEntries E st i dto u = (Inl JOURNAL_NUMBER_EXISTS, st)))
   \<and> (0 < i \<and> journalNumber dto = Value n \<and> n \<noteq> []
        \<and> \<not> (\<exists>r\<in>set (journalsTable st). mj_journalNumber r = Some n \<and> mj_id r \<noteq> i)
        \<and> findById st i \<noteq> None
        \<and> valdiateCreditDebitTotalEquals dto = Inr ()
        \<and> validateContactsExistance st dto = Inr ()
        \<and> validateAccountsExistance st dto = Inr ()
        \<and> dynamicValidateAccountsWithContactType E st (entries dto) = Inr () \<longrightarrow>
        \<not> isl (fst (editJournalEntries E st i dto u)))"
proof (intro conjI impI)
  show c: "validateManualJournalNoUnique st n None =
     (if \<exists>r\<in>set (journalsTable st). mj_journalNumber r = Some n
      then Inl JOURNAL_NUMBER_EXISTS else Inr ())"
    by (simp add: validateManualJournalNoUnique_eq truthy_num_def)
next
  assume "0 < i"
  then show "validateManualJournalNoUnique st n (Some i) =
          (if \<exists>r\<in>set (journalsTable st). mj_journalNumber r = Some n \<and> mj_id r \<noteq> i
           then Inl JOURNAL_NUMBER_EXISTS else Inr ())"
    by (simp add: validateManualJournalNoUnique_eq truthy_num_def)
next
  assume dup: "\<exists>r\<in>set (journalsTable st).
          mj_journalNumber r = Some (orElse (journalNumber dto) (nextTransactionNumber E))"
  then have u: "validateManualJournalNoUnique st
                  (orElse (journalNumber dto) (nextTransactionNumber E)) None
                = Inl JOURNAL_NUMBER_EXISTS"
    by (simp add: validateManualJournalNoUnique_eq truthy_num_def)
  show "isl (fst (makeJournalEntries E st dto u))"
  proof (rule ccontr)
    assume "\<not> isl (fst (makeJournalEntries E st dto u))"
    then obtain mj st' where "makeJournalEntries E st dto u = (Inr mj, st')"
      using isl_fst_cases [of "makeJournalEntries E st dto u"] by auto
    then have "validateManualJournalNoUnique st
                  (orElse (journalNumber dto) (nextTransactionNumber E)) None = Inr ()"
      by (rule makeJournalEntries_Inr)
    with u show False by simp
  qed
  assume "orElse (journalNumber dto) (nextTransactionNumber E) \<noteq> []
          \<and> valdiateCreditDebitTotalEquals dto = Inr ()
          \<and> validateContactsExistance st dto = Inr ()
          \<and> validateAccountsExistance st dto = Inr ()"
  with u show "makeJournalEntries E st dto u = (Inl JOURNAL_NUMBER_EXISTS, st)"
    by (simp add: make_unique_error)
next
  assume a: "0 < i \<and> journalNumber dto = Value n \<and> n \<noteq> []
        \<and> (\<exists>r\<in>set (journalsTable st). mj_journalNumber r = Some n \<and> mj_id r \<noteq> i)"
  then have u: "validateManualJournalNoUnique st n (Some i) = Inl JOURNAL_NUMBER_EXISTS"
    by (simp add: validateManualJournalNoUnique_eq truthy_num_def)
  show "isl (fst (editJournalEntries E st i dto u))"
  proof (rule ccontr)
    assume "\<not> isl (fst (editJournalEntries E st i dto u))"
    then obtain res st' where "editJournalEntries E st i dto u = (Inr res, st')"
      using isl_fst_cases [of "editJournalEntries E st i dto u"] by auto
    then have "(case journalNumber dto of Absent \<Rightarrow> Inr () | Null \<Rightarrow> Inr ()
          | Value n \<Rightarrow> if n \<noteq> [] then validateManualJournalNoUnique st n (Some i) else Inr ()) = Inr ()"
      by (rule editJournalEntries_Inr)
    with u a show False by simp
  qed
  assume "findById st i \<noteq> None
          \<and> valdiateCreditDebitTotalEquals dto = Inr ()
          \<and> validateContactsExistance st dto = Inr ()
          \<and> validateAccountsExistance st dto = Inr ()"
  with u a show "editJournalEntries E st i dto u = (Inl JOURNAL_NUMBER_EXISTS, st)"
    using edit_unique_error [of st i dto n JOURNAL_NUMBER_EXISTS E u] by simp
next
  assume a: "0 < i \<and> journalNumber dto = Value n \<and> n \<noteq> []
        \<and> \<not> (\<exists>r\<in>set (journalsTable st). mj_journalNumber r = Some n \<and> mj_id r \<noteq> i)
        \<and> findById st i \<noteq> None
        \<and> valdiateCreditDebitTotalEquals dto = Inr ()
        \<and> validateContactsExistance st dto = Inr ()
        \<and> validateAccountsExistance st dto = Inr ()
        \<and> dynamicValidateAccountsWithContactType E st (entries dto) = Inr ()"
  then have u: "validateManualJournalNoUnique st n (Some i) = Inr ()"
    by (simp add: validateManualJournalNoUnique_eq truthy_num_def)
  from a obtain old where "findById st i = Some old" by auto
  then show "\<not> isl (fst (editJournalEntries E st i dto u))"
    using a u by (intro editJournalEntries_ok [of st i old]) simp_all
qed

lemma validateManualJournalNoUnique_rule_example:
  "validateManualJournalNoUnique store0 ''J-1'' None = Inl JOURNAL_NUMBER_EXISTS
   \<and> validateManualJournalNoUnique store0 ''J-3'' None = Inr ()
   \<and> (0::nat) < 12 \<and> (0::nat) < 11
   \<and> validateManualJournalNoUnique store0 ''J-1'' (Some 12) = Inl JOURNAL_NUMBER_EXISTS
   \<and> validateManualJournalNoUnique store0 ''J-1'' (Some 11) = Inr ()
   \<and> makeJournalEntries env0 store0 (dtoBalanced\<lparr>journalNumber := Value ''J-1''\<rparr>) user0
       = (Inl JOURNAL_NUMBER_EXISTS, store0)
   \<and> editJournalEntries env0 store0 12 (dtoBalanced\<lparr>journalNumber := Value ''J-1''\<rparr>) user0
       = (Inl JOURNAL_NUMBER_EXISTS, store0)
   \<and> \<not> isl (fst (editJournalEntries env0 store0 11 (dtoBalanced\<lparr>journalNumber := Value ''J-1''\<rparr>) user0))"
proof -
  have rows: "journalsTable store0 = [rowDraft, rowPublished]"
    "mj_journalNumber rowDraft = Some ''J-1''" "mj_journalNumber rowPublished = Some ''J-2''"
    "mj_id rowDraft = 11" "mj_id rowPublished = 12"
    by (simp_all add: store0_def rowDraft_def rowPublished_def)
  have n: "orElse (Value ''J-1'') (nextTransactionNumber env0) = ''J-1''"
    by (simp add: orElse_def)
  have d: "dynamicValidateAccountsWithContactType env0 store0
              (entries (dtoBalanced\<lparr>journalNumber := Value ''J-1''\<rparr>)) = Inr ()"
    by (simp add: dtoBalanced_number_valid dtoBalanced_valid)
  note i12 = validateManualJournalNoUnique_rule
                [of store0 "''J-1''" 12 "dtoBalanced\<lparr>journalNumber := Value ''J-1''\<rparr>" env0 user0]
  note i11 = validateManualJournalNoUnique_rule
                [of store0 "''J-1''" 11 "dtoBalanced\<lparr>journalNumber := Value ''J-1''\<rparr>" env0 user0]
  note i3 = validateManualJournalNoUnique_rule
                [of store0 "''J-3''" 11 "dtoBalanced\<lparr>journalNumber := Value ''J-1''\<rparr>" env0 user0]
  have a: "validateManualJournalNoUnique store0 ''J-1'' None = Inl JOURNAL_NUMBER_EXISTS
      \<and> validateManualJournalNoUnique store0 ''J-1'' (Some 12) = Inl JOURNAL_NUMBER_EXISTS
      \<and> makeJournalEntries env0 store0 (dtoBalanced\<lparr>journalNumber := Value ''J-1''\<rparr>) user0
          = (Inl JOURNAL_NUMBER_EXISTS, store0)
      \<and> editJournalEntries env0 store0 12 (dtoBalanced\<lparr>journalNumber := Value ''J-1''\<rparr>) user0
          = (Inl JOURNAL_NUMBER_EXISTS, store0)"
    using i12 by (simp add: rows n dtoBalanced_number_valid)
  have b: "validateManualJournalNoUnique store0 ''J-1'' (Some 11) = Inr ()
      \<and> \<not> isl (fst (editJournalEntries env0 store0 11 (dtoBalanced\<lparr>journalNumber := Value ''J-1''\<rparr>) user0))"
    using i11 d by (simp add: rows dtoBalanced_number_valid)
  have c: "validateManualJournalNoUnique store0 ''J-3'' None = Inr ()"
    using i3 by (simp add: rows)
  from a b c show ?thesis by simp
qed

text \<open>
  Claim C5. The claim fails on the empty string as journal number: edit does not run the
  uniqueness check on it, and writes it all the same. From the example tenant, an edit
  sets the number of journal 11 to the empty string. An edit of journal 12 with the DTO
  of the same number, which journal 11 now holds, does not fail with
  \<open>JOURNAL_NUMBER_EXISTS\<close>: it succeeds, and the two journals hold the same number.
  Create does not take the empty string for a journal number: for the same DTO it stores
  the next number of the auto-increment, and it fails with \<open>MANUAL_JOURNAL_NO_REQUIRED\<close>
  when there is none.
\<close>

theorem edit_writes_empty_journal_number_unchecked:
  "\<not> isl (fst (editJournalEntries env0 store0 11 dtoEmptyNumber user0))
   \<and> map mj_journalNumber
        (journalsTable (snd (editJournalEntries env0 store0 11 dtoEmptyNumber user0)))
       = [Some [], Some ''J-2'']
   \<and> \<not> isl (fst (editJournalEntries env0
                    (snd (editJournalEntries env0 store0 11 dtoEmptyNumber user0))
                    12 dtoEmptyNumber user0))
   \<and> map mj_journalNumber
        (journalsTable (snd (editJournalEntries env0
                    (snd (editJournalEntries env0 store0 11 dtoEmptyNumber user0))
                    12 dtoEmptyNumber user0)))
       = [Some [], Some []]
   \<and> \<not> isl (fst (makeJournalEntries env0 store0 dtoEmptyNumber user0))
   \<and> map mj_journalNumber
        (journalsTable (snd (makeJournalEntries env0 store0 dtoEmptyNumber user0)))
       = [Some ''J-1'', Some ''J-2'', Some ''J-9'']
   \<and> makeJournalEntries (env0\<lparr>nextTransactionNumber := []\<rparr>) store0 dtoEmptyNumber user0
       = (Inl MANUAL_JOURNAL_NO_REQUIRED, store0)"
proof -
  define storeA where "storeA = snd (editJournalEntries env0 store0 11 dtoEmptyNumber user0)"
  have dyn: "dynamicValidateAccountsWithContactType env0 store0 (entries dtoEmptyNumber) = Inr ()"
    by (simp add: dtoEmptyNumber_def dtoBalanced_number_valid dtoBalanced_valid)
  have ok1: "\<not> isl (fst (editJournalEntries env0 store0 11 dtoEmptyNumber user0))"
    by (rule editJournalEntries_ok [of _ _ rowDraft])
       (simp_all add: dyn, simp_all add: dtoEmptyNumber_def dtoBalanced_number_valid)
  note tabs = edit_success_tables [OF ok1 findById_store0(1), folded storeA_def]
  have jA: "journalsTable storeA
      = [patchRow (transformEditDTOToModel env0 dtoEmptyNumber (withGraphFetched store0 rowDraft)) rowDraft,
         rowPublished]"
    by (simp add: tabs(1)) (simp add: store0_def rowDraft_def rowPublished_def)
  have nA: "map mj_journalNumber (journalsTable storeA) = [Some [], Some ''J-2'']"
    by (simp add: jA patched_def dtoEmptyNumber_def rowPublished_def)
  have fA: "findById storeA 12 = Some rowPublished"
    by (simp add: findById_def jA) (simp add: rowDraft_def rowPublished_def)
  have ok2: "\<not> isl (fst (editJournalEntries env0 storeA 12 dtoEmptyNumber user0))"
    by (rule editJournalEntries_ok [OF fA])
       (simp_all add: validation_reads(1) [OF tabs(3)] validation_reads(2,3) [OF tabs(2)] dyn,
        simp_all add: dtoEmptyNumber_def dtoBalanced_number_valid)
  have nB: "map mj_journalNumber (journalsTable (snd (editJournalEntries env0 storeA 12 dtoEmptyNumber user0)))
      = [Some [], Some []]"
    by (simp add: edit_success_tables(1) [OF ok2 fA] jA patched_def)
       (simp add: dtoEmptyNumber_def rowDraft_def rowPublished_def)
  have num: "orElse (journalNumber dtoEmptyNumber) (nextTransactionNumber env0) = ''J-9''"
    by (simp add: dtoEmptyNumber_def orElse_def env0_def)
  have u9: "validateManualJournalNoUnique store0 ''J-9'' None = Inr ()"
    by (simp add: validateManualJournalNoUnique_eq store0_def rowDraft_def rowPublished_def)
  have ok3: "\<not> isl (fst (makeJournalEntries env0 store0 dtoEmptyNumber user0))"
    by (rule makeJournalEntries_ok)
       (simp_all add: num u9 dyn, simp_all add: dtoEmptyNumber_def dtoBalanced_number_valid)
  then obtain mj st' where m: "makeJournalEntries env0 store0 dtoEmptyNumber user0 = (Inr mj, st')"
    using isl_fst_cases [of "makeJournalEntries env0 store0 dtoEmptyNumber user0"] by auto
  from m obtain g where g: "transformNewDTOToModel env0 dtoEmptyNumber user0 = Inr g"
    and st': "st' = dispatch (onCreated mj)
           (issue (UpsertGraph g)
             (store0\<lparr>journalsTable := journalsTable store0 @ [newRow (nextId store0) g],
                 entriesTable := entriesTable store0 @ map (Pair (nextId store0)) (entries dtoEmptyNumber),
                 nextId := Suc (nextId store0)\<rparr>))"
    by (rule makeJournalEntries_Inr)
  have nC: "map mj_journalNumber (journalsTable st') = [Some ''J-1'', Some ''J-2'', Some ''J-9'']"
    using transformNew_Inr [OF g]
    by (simp add: st' num newRow_def inserted_def) (simp add: store0_def rowDraft_def rowPublished_def)
  have req: "makeJournalEntries (env0\<lparr>nextTransactionNumber := []\<rparr>) store0 dtoEmptyNumber user0
       = (Inl MANUAL_JOURNAL_NO_REQUIRED, store0)"
    by (simp add: makeJournalEntries_def transformNewDTOToModel_def validateJournalNoRequire_def
          Let_def orElse_def dtoEmptyNumber_def)
  from ok1 nA ok2 nB ok3 nC req m show ?thesis by (simp add: storeA_def)
qed

section \<open>Bulk delete\<close>

lemma deleteManualJournals_not_found:
  "\<not> set ids \<subseteq> mj_id ` set (journalsTable st) \<Longrightarrow> deleteManualJournals st ids = (Inl NOT_FOUND, st)"
  by (simp add: deleteManualJournals_def getManualJournalsOrThrowError_eq)

lemma deleteManualJournals_found:
  "set ids \<subseteq> mj_id ` set (journalsTable st) \<Longrightarrow>
   deleteManualJournals st ids =
     (Inr (map (withGraphFetched st) (whereInId st ids)),
      dispatch (onDeletedBulk ids) (deleteJournalsWhereIn (deleteEntriesWhereIn st ids) ids))"
  by (simp add: deleteManualJournals_def getManualJournalsOrThrowError_eq Let_def)

text \<open>
  Claim C6. Bulk delete is all or nothing. When one of the ids has no stored journal,
  the operation fails with \<open>NOT_FOUND\<close> and the storage is as it was: no journal and no
  entry is deleted. When every id has a journal, the entries of the ids are deleted,
  then the journals of the ids, then the event is dispatched, in this order; the rows of
  other journals stay.
\<close>

theorem bulk_delete_all_or_nothing:
  "(\<not> set ids \<subseteq> mj_id ` set (journalsTable st) \<longrightarrow>
      deleteManualJournals st ids = (Inl NOT_FOUND, st))
   \<and> (set ids \<subseteq> mj_id ` set (journalsTable st) \<longrightarrow>
        fst (deleteManualJournals st ids) = Inr (map (withGraphFetched st) (whereInId st ids))
      \<and> effects (snd (deleteManualJournals st ids))
           = effects st @ [DeleteEntriesWhereIn ids, DeleteJournalsWhereIn ids,
                           Dispatch (onDeletedBulk ids)]
      \<and> journalsTable (snd (deleteManualJournals st ids))
           = filter (\<lambda>r. mj_id r \<notin> set ids) (journalsTable st)
      \<and> entriesTable (snd (deleteManualJournals st ids))
           = filter (\<lambda>p. fst p \<notin> set ids) (entriesTable st))"
  by (simp add: deleteManualJournals_not_found deleteManualJournals_found
        deleteJournalsWhereIn_def deleteEntriesWhereIn_def)

theorem bulk_delete_all_or_nothing_witness:
  "\<not> set [11, 5] \<subseteq> mj_id ` set (journalsTable store0)
   \<and> deleteManualJournals store0 [11, 5] = (Inl NOT_FOUND, store0)
   \<and> set [12, 11] \<subseteq> mj_id ` set (journalsTable store0)
   \<and> \<not> isl (fst (deleteManualJournals store0 [12, 11]))
   \<and> effects (snd (deleteManualJournals store0 [12, 11]))
        = [DeleteEntriesWhereIn [12, 11], DeleteJournalsWhereIn [12, 11],
           Dispatch (onDeletedBulk [12, 11])]
   \<and> journalsTable (snd (deleteManualJournals store0 [12, 11])) = []
   \<and> entriesTable (snd (deleteManualJournals store0 [12, 11])) = []"
proof -
  have t: "map mj_id (journalsTable store0) = [11, 12]" "map fst (entriesTable store0) = [11, 11, 12, 12]"
    "effects store0 = []"
    by (simp_all add: store0_def rowDraft_def rowPublished_def)
  have i: "mj_id ` set (journalsTable store0) = {11, 12}"
    by (simp add: store0_def rowDraft_def rowPublished_def)
  have a: "\<not> set [11, 5] \<subseteq> mj_id ` set (journalsTable store0)"
    and b: "set [12, 11] \<subseteq> mj_id ` set (journalsTable store0)"
    by (simp_all add: i)
  have j: "filter (\<lambda>r. mj_id r \<notin> set [12, 11]) (journalsTable store0) = []"
    by (simp add: store0_def rowDraft_def rowPublished_def)
  have e: "filter (\<lambda>p. fst p \<notin> set [12, 11]) (entriesTable store0) = []"
    by (simp add: store0_def)
  from bulk_delete_all_or_nothing [of "[11, 5]" store0] bulk_delete_all_or_nothing [of "[12, 11]" store0]
    a b j e t(3)
  show ?thesis by simp
qed

section \<open>Contacts of the entries\<close>

text \<open>
  The \<open>forEach\<close> of \<open>validateContactsExistance\<close> looks at every entry it is given and
  collects, in order, the result of the lookup for each entry whose contact is missing
  or is of another type than the entry declares.
\<close>

lemma fold_pushNotFound:
  "fold (pushNotFound m) es acc
     = acc @ map (\<lambda>e. mapGet m (contactId e))
               (filter (\<lambda>e. case mapGet m (contactId e) of
                               None \<Rightarrow> True
                             | Some c \<Rightarrow> Some (contactService c) \<noteq> contactType e) es)"
  by (induction es arbitrary: acc) (auto simp: pushNotFound_def Let_def split: option.splits)

lemma validateContactsExistance_no_contacts:
  "\<forall>e\<in>set (entries dto). \<not> truthy_num (contactId e) \<Longrightarrow> validateContactsExistance st dto = Inr ()"
  by (simp add: validateContactsExistance_def Let_def filter_False)

lemma validateContactsExistance_absent:
  assumes "e \<in> set (entries dto)" and "contactId e = Some k" and "k \<noteq> 0"
    and "k \<notin> contact_id ` set (contactsTable st)"
  shows "\<exists>xs. validateContactsExistance st dto = Inl (CONTACTS_NOT_FOUND xs) \<and> None \<in> set xs"
proof -
  define pairs where "pairs = filter (\<lambda>entry. truthy_num (contactId entry)) (entries dto)"
  define m where "m = contactsMap (filter (\<lambda>c. Some (contact_id c) \<in> set (map contactId pairs))
                                     (contactsTable st))"
  have e: "e \<in> set pairs" using assms(1-3) by (simp add: pairs_def truthy_num_def)
  have "m k = None"
    using assms(4) by (force simp: m_def contactsMap_def map_of_eq_None_iff)
  then have "mapGet m (contactId e) = None" using assms(2) by (simp add: mapGet_def)
  with e have n: "None \<in> set (fold (pushNotFound m) pairs [])"
    by (force simp: fold_pushNotFound)
  then have "fold (pushNotFound m) pairs [] \<noteq> []" by auto
  with n e show ?thesis
    unfolding validateContactsExistance_def Let_def pairs_def [symmetric] m_def [symmetric]
    by auto
qed

text \<open>
  Claim C7, the code at a failing input. The journal has two entries whose contacts, 98
  and 99, do not exist. The check fails once with \<open>CONTACTS_NOT_FOUND\<close>, as the claim
  says, but the list it carries holds the results of the two failed lookups, which are
  both \<open>undefined\<close>, and not the identifiers 98 and 99.
\<close>

theorem contacts_not_found_payload_at_absent_contacts:
  "validateContactsExistance store0 dtoAbsentContacts = Inl (CONTACTS_NOT_FOUND [None, None])
   \<and> makeJournalEntries env0 store0 dtoAbsentContacts user0
       = (Inl (CONTACTS_NOT_FOUND [None, None]), store0)"
proof -
  have v: "validateContactsExistance store0 dtoAbsentContacts = Inl (CONTACTS_NOT_FOUND [None, None])"
    by (simp add: example_defs dtoAbsentContacts_def validation_defs)
  have b: "valdiateCreditDebitTotalEquals dtoAbsentContacts = Inr ()"
    by (simp add: example_defs dtoAbsentContacts_def validation_defs)
  have n: "orElse (journalNumber dtoAbsentContacts) (nextTransactionNumber env0) \<noteq> []"
    by (simp add: dtoAbsentContacts_def orElse_def)
  from v make_contacts_error [OF n b v] show ?thesis by simp
qed

section \<open>Contact type by account classification\<close>

lemma validateAccountWithContactType_eq:
  assumes "find (\<lambda>a. account_slug a = slug) (accountsTable st) = Some acc" and "t \<noteq> []"
  shows "validateAccountWithContactType st es slug t =
     (let bad = filter (\<lambda>e. accountId e = account_id acc \<and> contactType e \<noteq> Some t) es
      in if bad = [] then Inr ()
         else Inl (ENTRIES_SHOULD_ASSIGN_WITH_CONTACT slug t (map index bad)))"
proof -
  have g: "filter (\<lambda>entry. truthy_str (contactType entry) \<longrightarrow> contactType entry \<noteq> Some t)
             (filter (\<lambda>entry. accountId entry = account_id acc) es)
        = filter (\<lambda>e. accountId e = account_id acc \<and> contactType e \<noteq> Some t) es"
    using assms(2) by (induction es) (auto simp: truthy_str_def)
  have e: "filter (\<lambda>e. accountId e = account_id acc \<and> contactType e \<noteq> Some t) es = []"
    if "filter (\<lambda>e. accountId e = account_id acc) es = []"
    using that by (auto simp: filter_empty_conv)
  show ?thesis
    using assms(1) e
    by (simp add: validateAccountWithContactType_def Let_def g del: filter_filter)
qed

lemma dynamicValidate_Inr_iff:
  "dynamicValidateAccountsWithContactType E st es = Inr () \<longleftrightarrow>
     validateAccountWithContactType st es ''accounts-receivable'' ''customer'' = Inr ()
   \<and> validateAccountWithContactType st es ''accounts-payable'' ''vendor'' = Inr ()"
  by (simp add: dynamicValidateAccountsWithContactType_def split: sum.splits)

lemma dynamicValidate_Inl:
  "dynamicValidateAccountsWithContactType E st es = Inl e \<Longrightarrow>
     validateAccountWithContactType st es ''accounts-receivable'' ''customer'' = Inl e
   \<or> validateAccountWithContactType st es ''accounts-payable'' ''vendor'' = Inl e"
  by (auto simp: dynamicValidateAccountsWithContactType_def split: sum.splits if_splits)

text \<open>
  Claim C8. With the accounts of the slugs \<open>accounts-receivable\<close> and \<open>accounts-payable\<close>
  in the chart of accounts, the check of the receivable account passes when every entry
  on that account declares the contact type \<open>customer\<close>, and otherwise fails once with
  \<open>ENTRIES_SHOULD_ASSIGN_WITH_CONTACT\<close> carrying the slug, the expected contact type and
  the indexes of all entries on the account that declare another contact type or none,
  in the order of the entries; the check of the payable account does the same with
  \<open>vendor\<close>. The two checks do not depend on each other; the rule passes when both pass,
  and when it fails its error is the error of one of the two.
\<close>

theorem contact_type_by_account_classification:
  assumes "find (\<lambda>a. account_slug a = ''accounts-receivable'') (accountsTable st) = Some ar"
    and "find (\<lambda>a. account_slug a = ''accounts-payable'') (accountsTable st) = Some ap"
  shows "validateAccountWithContactType st es ''accounts-receivable'' ''customer'' =
           (let bad = filter (\<lambda>e. accountId e = account_id ar \<and> contactType e \<noteq> Some ''customer'') es
            in if bad = [] then Inr ()
               else Inl (ENTRIES_SHOULD_ASSIGN_WITH_CONTACT ''accounts-receivable'' ''customer''
                           (map index bad)))
       \<and> validateAccountWithContactType st es ''accounts-payable'' ''vendor'' =
           (let bad = filter (\<lambda>e. accountId e = account_id ap \<and> contactType e \<noteq> Some ''vendor'') es
            in if bad = [] then Inr ()
               else Inl (ENTRIES_SHOULD_ASSIGN_WITH_CONTACT ''accounts-payable'' ''vendor''
                           (map index bad)))
       \<and> (dynamicValidateAccountsWithContactType E st es = Inr () \<longleftrightarrow>
            validateAccountWithContactType st es ''accounts-receivable'' ''customer'' = Inr ()
          \<and> validateAccountWithContactType st es ''accounts-payable'' ''vendor'' = Inr ())
       \<and> (\<forall>e. dynamicValidateAccountsWithContactType E st es = Inl e \<longrightarrow>
            validateAccountWithContactType st es ''accounts-receivable'' ''customer'' = Inl e
          \<or> validateAccountWithContactType st es ''accounts-payable'' ''vendor'' = Inl e)"
proof (intro conjI allI impI)
  show "validateAccountWithContactType st es ''accounts-receivable'' ''customer'' =
           (let bad = filter (\<lambda>e. accountId e = account_id ar \<and> contactType e \<noteq> Some ''customer'') es
            in if bad = [] then Inr ()
               else Inl (ENTRIES_SHOULD_ASSIGN_WITH_CONTACT ''accounts-receivable'' ''customer''
                           (map index bad)))"
    using assms(1) by (rule validateAccountWithContactType_eq) simp
  show "validateAccountWithContactType st es ''accounts-payable'' ''vendor'' =
           (let bad = filter (\<lambda>e. accountId e = account_id ap \<and> contactType e \<noteq> Some ''vendor'') es
            in if bad = [] then Inr ()
               else Inl (ENTRIES_SHOULD_ASSIGN_WITH_CONTACT ''accounts-payable'' ''vendor''
                           (map index bad)))"
    using assms(2) by (rule validateAccountWithContactType_eq) simp
  show "dynamicValidateAccountsWithContactType E st es = Inr () \<longleftrightarrow>
            validateAccountWithContactType st es ''accounts-receivable'' ''customer'' = Inr ()
          \<and> validateAccountWithContactType st es ''accounts-payable'' ''vendor'' = Inr ()"
    by (rule dynamicValidate_Inr_iff)
next
  fix e assume "dynamicValidateAccountsWithContactType E st es = Inl e"
  then show "validateAccountWithContactType st es ''accounts-receivable'' ''customer'' = Inl e
          \<or> validateAccountWithContactType st es ''accounts-payable'' ''vendor'' = Inl e"
    by (rule dynamicValidate_Inl)
qed

theorem contact_type_by_account_classification_witness:
  "find (\<lambda>a. account_slug a = ''accounts-receivable'') (accountsTable store0)
     = Some (Account 10 ''accounts-receivable'')
   \<and> find (\<lambda>a. account_slug a = ''accounts-payable'') (accountsTable store0)
     = Some (Account 20 ''accounts-payable'')
   \<and> validateAccountWithContactType store0
        [entryReceivable\<lparr>contactType := Some ''vendor''\<rparr>, entryCash,
         entryReceivable\<lparr>index := 5, contactType := None\<rparr>]
        ''accounts-receivable'' ''customer''
       = Inl (ENTRIES_SHOULD_ASSIGN_WITH_CONTACT ''accounts-receivable'' ''customer'' [1, 5])
   \<and> dynamicValidateAccountsWithContactType env0 store0
        [entryReceivable\<lparr>contactType := Some ''vendor''\<rparr>, entryCash,
         entryReceivable\<lparr>index := 5, contactType := None\<rparr>]
       = Inl (ENTRIES_SHOULD_ASSIGN_WITH_CONTACT ''accounts-receivable'' ''customer'' [1, 5])
   \<and> validateAccountWithContactType store0 [entryReceivable, entryCash]
        ''accounts-receivable'' ''customer'' = Inr ()
   \<and> dynamicValidateAccountsWithContactType env0 store0 [entryReceivable, entryCash] = Inr ()"
proof -
  have ar: "find (\<lambda>a. account_slug a = ''accounts-receivable'') (accountsTable store0)
     = Some (Account 10 ''accounts-receivable'')"
    and ap: "find (\<lambda>a. account_slug a = ''accounts-payable'') (accountsTable store0)
     = Some (Account 20 ''accounts-payable'')"
    by (simp_all add: store0_def)
  note inst = contact_type_by_account_classification [OF ar ap]
  have bad: "validateAccountWithContactType store0
        [entryReceivable\<lparr>contactType := Some ''vendor''\<rparr>, entryCash,
         entryReceivable\<lparr>index := 5, contactType := None\<rparr>]
        ''accounts-receivable'' ''customer''
       = Inl (ENTRIES_SHOULD_ASSIGN_WITH_CONTACT ''accounts-receivable'' ''customer'' [1, 5])"
    and bad2: "validateAccountWithContactType store0
        [entryReceivable\<lparr>contactType := Some ''vendor''\<rparr>, entryCash,
         entryReceivable\<lparr>index := 5, contactType := None\<rparr>]
        ''accounts-payable'' ''vendor'' = Inr ()"
    using inst [of "[entryReceivable\<lparr>contactType := Some ''vendor''\<rparr>, entryCash,
         entryReceivable\<lparr>index := 5, contactType := None\<rparr>]" env0]
    by (simp_all add: entryReceivable_def entryCash_def)
  have good: "validateAccountWithContactType store0 [entryReceivable, entryCash]
        ''accounts-receivable'' ''customer'' = Inr ()"
      "validateAccountWithContactType store0 [entryReceivable, entryCash]
        ''accounts-payable'' ''vendor'' = Inr ()"
    using inst [of "[entryReceivable, entryCash]" env0]
    by (simp_all add: entryReceivable_def entryCash_def)
  have d1: "dynamicValidateAccountsWithContactType env0 store0
        [entryReceivable\<lparr>contactType := Some ''vendor''\<rparr>, entryCash,
         entryReceivable\<lparr>index := 5, contactType := None\<rparr>]
       = Inl (ENTRIES_SHOULD_ASSIGN_WITH_CONTACT ''accounts-receivable'' ''customer'' [1, 5])"
    using bad bad2 by (simp add: dynamicValidateAccountsWithContactType_def)
  have d2: "dynamicValidateAccountsWithContactType env0 store0 [entryReceivable, entryCash] = Inr ()"
    using inst [of "[entryReceivable, entryCash]" env0] good by simp
  from ar ap bad good(1) d1 d2 show ?thesis by simp
qed

section \<open>Validation before persistence\<close>



section \<open>Distributing a payment over the due invoices\<close>

lemma amountPaymentEntries_map_length:
  "length (amountPaymentEntries_map a es) = length es"
  by (induction es arbitrary: a) (simp_all add: Let_def)

lemma amountPaymentEntries_map_frame:
  "map (\<lambda>e. e\<lparr>payment_amount := c\<rparr>) (amountPaymentEntries_map a es)
     = map (\<lambda>e. e\<lparr>payment_amount := c\<rparr>) es"
  by (induction es arbitrary: a) (simp_all add: Let_def)

lemma mathMin_nonNegative:
  assumes "nonNegative d" and "nonNegative r"
  shows "nonNegative (mathMin d r)" and "js_le (Finite 0) (mathMin d r)"
    and "js_le (mathMin d r) d" and "js_le (mathMin d r) r"
    and "mathMin d r = Finite (min (valueOf d) (valueOf r))"
    and "mathMax (mathMin d r) (Finite 0) = mathMin d r"
proof -
  obtain x y where d: "d = Finite x" "0 \<le> x" "isDouble x" and r: "r = Finite y" "0 \<le> y" "isDouble y"
    using assms by (auto simp: nonNegative_cases)
  show "nonNegative (mathMin d r)" and "js_le (Finite 0) (mathMin d r)"
    and "js_le (mathMin d r) d" and "js_le (mathMin d r) r"
    and "mathMin d r = Finite (min (valueOf d) (valueOf r))"
    and "mathMax (mathMin d r) (Finite 0) = mathMin d r"
    using d r by (auto simp: mathMin_def mathMax_def js_le_def min_def)
qed

lemma js_sub_nonNegative:
  assumes "nonNegative r" and "nonNegative p" and "js_le p r"
  shows "nonNegative (js_sub r p)"
proof -
  obtain x y where r: "r = Finite x" "0 \<le> x" "isDouble x" and p: "p = Finite y" "0 \<le> y" "isDouble y"
    using assms(1,2) by (auto simp: nonNegative_cases)
  have "y \<le> x" using assms(3) r p by (auto simp: js_le_def)
  then have "0 \<le> x - y" "x - y \<le> maxDouble"
    using p(2) r(3) by (simp_all add: isDouble_def)
  then show ?thesis
    using fromRat_bounded(2) [of "x - y"] by (simp add: js_sub_def r p)
qed

lemma amountPaymentEntries_map_Cons:
  assumes "nonNegative a" and "nonNegative (due_amount item)"
  shows "amountPaymentEntries_map a (item # items)
      = item\<lparr>payment_amount := mathMin (due_amount item) a\<rparr>
          # amountPaymentEntries_map (js_sub a (mathMin (due_amount item) a)) items"
    and "nonNegative (js_sub a (mathMin (due_amount item) a))"
  using mathMin_nonNegative [OF assms(2,1)] js_sub_nonNegative [OF assms(1)]
  by (simp_all add: Let_def)

lemma amountPaymentEntries_map_bounds:
  "nonNegative a \<Longrightarrow> list_all (\<lambda>e. nonNegative (due_amount e)) es \<Longrightarrow>
   \<forall>e\<in>set (amountPaymentEntries_map a es).
      nonNegative (payment_amount e) \<and> js_le (Finite 0) (payment_amount e)
      \<and> js_le (payment_amount e) (due_amount e)"
proof (induction es arbitrary: a)
  case Nil
  then show ?case by simp
next
  case (Cons item items)
  have d: "nonNegative (due_amount item)" and ds: "list_all (\<lambda>e. nonNegative (due_amount e)) items"
    using Cons.prems(2) by simp_all
  note u = amountPaymentEntries_map_Cons [OF Cons.prems(1) d]
  show ?case
    using Cons.IH [OF u(2) ds] mathMin_nonNegative(1-3) [OF d Cons.prems(1)]
    by (simp add: u(1) del: amountPaymentEntries_map.simps)
qed

lemma remainingAfter_simps [simp]:
  "remainingAfter a [] = a" "remainingAfter a (p # ps) = remainingAfter (js_sub a p) ps"
  by (simp_all add: remainingAfter_def)

lemma amountPaymentEntries_map_nth:
  "nonNegative a \<Longrightarrow> list_all (\<lambda>e. nonNegative (due_amount e)) es \<Longrightarrow> i < length es \<Longrightarrow>
   payment_amount (amountPaymentEntries_map a es ! i)
     = mathMin (due_amount (es ! i))
         (remainingAfter a (map payment_amount (take i (amountPaymentEntries_map a es))))"
proof (induction es arbitrary: a i)
  case Nil
  then show ?case by simp
next
  case (Cons item items)
  have d: "nonNegative (due_amount item)" and ds: "list_all (\<lambda>e. nonNegative (due_amount e)) items"
    using Cons.prems(2) by simp_all
  note u = amountPaymentEntries_map_Cons [OF Cons.prems(1) d]
  show ?case
  proof (cases i)
    case 0
    then show ?thesis by (simp add: u(1) del: amountPaymentEntries_map.simps)
  next
    case (Suc j)
    then have j: "j < length items" using Cons.prems(3) by simp
    show ?thesis
      using Cons.IH [OF u(2) ds j] Suc
      by (simp add: u(1) del: amountPaymentEntries_map.simps)
  qed
qed

lemma sum_list_valueOf_nonneg:
  "list_all (\<lambda>e. nonNegative (due_amount e)) es \<Longrightarrow> 0 \<le> sum_list (map (valueOf \<circ> due_amount) es)"
  by (induction es) (auto simp: nonNegative_cases)

lemma amountPaymentEntries_map_sum:
  "nonNegative a \<Longrightarrow> list_all (\<lambda>e. nonNegative (due_amount e)) es \<Longrightarrow>
   exactSubtractions a (map payment_amount (amountPaymentEntries_map a es)) \<Longrightarrow>
   sum_list (map (valueOf \<circ> payment_amount) (amountPaymentEntries_map a es))
     = min (valueOf a) (sum_list (map (valueOf \<circ> due_amount) es))"
proof (induction es arbitrary: a)
  case Nil
  then show ?case by (auto simp: nonNegative_cases)
next
  case (Cons item items)
  have d: "nonNegative (due_amount item)" and ds: "list_all (\<lambda>e. nonNegative (due_amount e)) items"
    using Cons.prems(2) by simp_all
  note u = amountPaymentEntries_map_Cons [OF Cons.prems(1) d]
  define p where "p = mathMin (due_amount item) a"
  have p: "p = Finite (min (valueOf (due_amount item)) (valueOf a))"
    unfolding p_def by (rule mathMin_nonNegative(5) [OF d Cons.prems(1)])
  have "exactSubtractions a (p # map payment_amount (amountPaymentEntries_map (js_sub a p) items))"
    using Cons.prems(3)
    by (simp add: u(1) p_def del: amountPaymentEntries_map.simps exactSubtractions.simps)
  then have ex0: "js_sub a p = Finite (valueOf a - valueOf p)
      \<and> exactSubtractions (js_sub a p) (map payment_amount (amountPaymentEntries_map (js_sub a p) items))"
    by (rule iffD1 [OF exactSubtractions.simps(2)])
  note ex = conjunct1 [OF ex0] conjunct2 [OF ex0]
  have s: "0 \<le> sum_list (map (valueOf \<circ> due_amount) items)"
    using ds by (rule sum_list_valueOf_nonneg)
  have a0: "0 \<le> valueOf a" and d0: "0 \<le> valueOf (due_amount item)"
    using Cons.prems(1) d by (auto simp: nonNegative_cases)
  define P where
    "P = sum_list (map (valueOf \<circ> payment_amount) (amountPaymentEntries_map (js_sub a p) items))"
  define S where "S = sum_list (map (valueOf \<circ> due_amount) items)"
  define x where "x = valueOf a"
  define y where "y = valueOf (due_amount item)"
  have "P = min (valueOf (js_sub a p)) S"
    unfolding P_def S_def using Cons.IH [OF u(2) [folded p_def] ds ex(2)] .
  moreover have "valueOf (js_sub a p) = x - valueOf p" by (simp add: ex(1) x_def)
  moreover have vp: "valueOf p = min y x" by (simp add: p x_def y_def)
  ultimately have "P = min (x - min y x) S" by simp
  moreover have "0 \<le> S" "0 \<le> x" "0 \<le> y" using s a0 d0 by (simp_all add: S_def x_def y_def)
  ultimately have "min y x + P = min x (y + S)" by (auto simp: min_def)
  moreover have "sum_list (map (valueOf \<circ> payment_amount) (amountPaymentEntries_map a (item # items)))
      = valueOf p + P"
    by (simp add: u(1) p_def P_def del: amountPaymentEntries_map.simps)
  moreover have "sum_list (map (valueOf \<circ> due_amount) (item # items)) = y + S"
    by (simp add: S_def y_def)
  ultimately show ?case by (simp only: vp x_def)
qed

text \<open>
  Amounts that are natural numbers, the payment at most \<open>2 ^ 53\<close>: no subtraction rounds.
\<close>

lemma exactSubtractions_naturals:
  "n \<le> 2 ^ 53 \<Longrightarrow> list_all (\<lambda>e. \<exists>k. due_amount e = Finite (of_nat k)) es \<Longrightarrow>
   exactSubtractions (Finite (of_nat n))
     (map payment_amount (amountPaymentEntries_map (Finite (of_nat n)) es))"
proof (induction es arbitrary: n)
  case Nil
  then show ?case by simp
next
  case (Cons item items)
  from Cons.prems(2) obtain k where k: "due_amount item = Finite (of_nat k)"
    and ds: "list_all (\<lambda>e. \<exists>k. due_amount e = Finite (of_nat k)) items"
    by auto
  have dn: "isDouble (of_nat m)" if "m \<le> 2 ^ 53" for m :: nat
  proof -
    have "\<bar>int m\<bar> \<le> 2 ^ 53" using that by (simp add: of_nat_le_iff [of m "2 ^ 53", where ?'a = int, simplified])
    then have "isDouble (of_int (int m))" by (rule isDouble_of_int)
    then show ?thesis by simp
  qed
  have mn: "mathMin (Finite (of_nat k)) (Finite (of_nat n)) = Finite (of_nat (min k n))"
    by (auto simp: mathMin_def min_def)
  have mx: "mathMax (Finite (of_nat (min k n))) (Finite 0) = Finite (of_nat (min k n))"
    by (auto simp: mathMax_def)
  have "(of_nat n :: rat) - of_nat (min k n) = of_nat (n - min k n)"
    by simp
  then have sb: "js_sub (Finite (of_nat n)) (Finite (of_nat (min k n))) = Finite (of_nat (n - min k n))"
    using dn [of "n - min k n"] Cons.prems(1) by (simp add: js_sub_def fromRat_double)
  have le: "n - min k n \<le> 2 ^ 53" using Cons.prems(1) by simp
  show ?case
    using Cons.IH [OF le ds] sb
    by (simp add: Let_def k mn mx)
qed

text \<open>
  The decimals 0.2, 0.7, 0.8 and 0.9 are not doubles; a program that reads them works
  with the doubles nearest to them.
\<close>

lemma decimal_doubles:
  "roundDouble (2 / 10) = double_0_2" "roundDouble (7 / 10) = double_0_7"
  "roundDouble (8 / 10) = double_0_8" "roundDouble (9 / 10) = double_0_9"
  using roundDouble_pos_near [of "2 / 10" "- 55" 7205759403792794]
    roundDouble_pos_near [of "7 / 10" "- 53" 6305039478318694]
    roundDouble_pos_near [of "8 / 10" "- 53" 7205759403792794]
    roundDouble_pos_near [of "9 / 10" "- 53" 8106479329266893]
  by (simp_all add: double_0_2_def double_0_7_def double_0_8_def double_0_9_def)

lemma isDouble_decimal_doubles:
  "isDouble double_0_2" "isDouble double_0_7" "isDouble double_0_8" "isDouble double_0_9"
  using isDouble_dyadic [of "- 54" 3602879701896397] isDouble_dyadic [of "- 52" 3152519739159347]
    isDouble_dyadic [of "- 52" 3602879701896397] isDouble_dyadic [of "- 53" 8106479329266893]
  by (simp_all add: double_0_2_def double_0_7_def double_0_8_def double_0_9_def maxDouble_def)

text \<open>
  In double precision, 0.9 - 0.2 is 0.7, 0.2 + 0.7 is the double below 0.9, and 0.2 + 0.8
  is 1.
\<close>

lemma decimal_arithmetic:
  "js_sub (Finite double_0_9) (Finite double_0_2) = Finite double_0_7"
  "js_add (Finite double_0_2) (Finite double_0_7) = Finite (8106479329266892 / 9007199254740992)"
  "js_add (Finite double_0_2) (Finite double_0_8) = Finite 1"
proof -
  have m: "(1 :: rat) \<le> maxDouble" by (simp add: maxDouble_def)
  have "roundDouble (double_0_9 - double_0_2) = double_0_7"
    using roundDouble_pos_tie [of "double_0_9 - double_0_2" "- 53" 6305039478318694]
    by (simp add: double_0_2_def double_0_7_def double_0_9_def)
  then show "js_sub (Finite double_0_9) (Finite double_0_2) = Finite double_0_7"
    using m by (simp add: js_sub_def fromRat_def Let_def) (simp add: double_0_7_def)
  have "roundDouble (double_0_2 + double_0_7) = 8106479329266892 / 9007199254740992"
    using roundDouble_pos_tie [of "double_0_2 + double_0_7" "- 53" 8106479329266892]
    by (simp add: double_0_2_def double_0_7_def)
  then show "js_add (Finite double_0_2) (Finite double_0_7)
      = Finite (8106479329266892 / 9007199254740992)"
    using m by (simp add: fromRat_def Let_def)
  have "roundDouble (double_0_2 + double_0_8) = 1"
    using roundDouble_pos_near [of "double_0_2 + double_0_8" "- 52" 4503599627370496]
    by (simp add: double_0_2_def double_0_8_def)
  then show "js_add (Finite double_0_2) (Finite double_0_8) = Finite 1"
    using m by (simp add: fromRat_def Let_def)
qed

text \<open>
  Claim C10, as amended. For an amount \<open>a\<close> and entries whose due amounts are all finite
  and non-negative, \<open>amountPaymentEntries\<close> gives each entry, in list order, the smaller of
  its due amount and of what is left of \<open>a\<close> after the payments of the entries before it
  have been subtracted one after the other in double precision; every payment amount
  lies between 0 and the due amount; and nothing but \<open>payment_amount\<close> changes in an
  entry. When none of these subtractions rounds, the payment amounts add up to the
  smaller of \<open>a\<close> and of the sum of the due amounts.
\<close>

theorem amountPaymentEntries_greedy_rounded:
  assumes "nonNegative a" and "list_all (\<lambda>e. nonNegative (due_amount e)) es"
  shows "length (amountPaymentEntries a es) = length es
    \<and> (\<forall>i<length es. payment_amount (amountPaymentEntries a es ! i)
          = mathMin (due_amount (es ! i))
              (remainingAfter a (map payment_amount (take i (amountPaymentEntries a es)))))
    \<and> (\<forall>e\<in>set (amountPaymentEntries a es).
          nonNegative (payment_amount e) \<and> js_le (Finite 0) (payment_amount e)
          \<and> js_le (payment_amount e) (due_amount e))
    \<and> (exactSubtractions a (map payment_amount (amountPaymentEntries a es)) \<longrightarrow>
          sum_list (map (valueOf \<circ> payment_amount) (amountPaymentEntries a es))
            = min (valueOf a) (sum_list (map (valueOf \<circ> due_amount) es)))
    \<and> map (\<lambda>e. e\<lparr>payment_amount := Finite 0\<rparr>) (amountPaymentEntries a es)
         = map (\<lambda>e. e\<lparr>payment_amount := Finite 0\<rparr>) es"
  unfolding amountPaymentEntries_def
  using assms amountPaymentEntries_map_length [of a es]
    amountPaymentEntries_map_frame [of "Finite 0" a es]
    amountPaymentEntries_map_bounds [of a es] amountPaymentEntries_map_sum [of a es]
    amountPaymentEntries_map_nth [of a es]
  by blast

theorem amountPaymentEntries_greedy_rounded_witness:
  "nonNegative (Finite 5) \<and> nonNegative (due_amount invoiceA) \<and> nonNegative (due_amount invoiceB)
   \<and> amountPaymentEntries (Finite 5) [invoiceA, invoiceB]
       = [invoiceA\<lparr>payment_amount := Finite 3\<rparr>, invoiceB\<lparr>payment_amount := Finite 2\<rparr>]
   \<and> exactSubtractions (Finite 5) [Finite 3, Finite 2]
   \<and> sum_list (map (valueOf \<circ> payment_amount) (amountPaymentEntries (Finite 5) [invoiceA, invoiceB]))
       = min 5 (sum_list (map (valueOf \<circ> due_amount) [invoiceA, invoiceB]))"
proof -
  have a: "nonNegative (Finite 5)" by (simp add: isDouble_numeral)
  have d: "list_all (\<lambda>e. nonNegative (due_amount e)) [invoiceA, invoiceB]"
    by (simp add: invoiceA_def invoiceB_def isDouble_numeral)
  have v: "amountPaymentEntries (Finite 5) [invoiceA, invoiceB]
       = [invoiceA\<lparr>payment_amount := Finite 3\<rparr>, invoiceB\<lparr>payment_amount := Finite 2\<rparr>]"
    by (simp add: amountPaymentEntries_def invoiceA_def invoiceB_def Let_def mathMin_def
          mathMax_def js_sub_def)
  have x: "exactSubtractions (Finite 5) [Finite 3, Finite 2]"
    by (simp add: js_sub_def)
  from amountPaymentEntries_greedy_rounded [OF a d] a d v x show ?thesis
    by (simp add: js_sub_def invoiceA_def invoiceB_def)
qed

text \<open>
  The claim as stated fails in double precision. For a payment of 0.9 and two invoices
  due 0.2 and 0.8, the payment amounts are 0.2 and 0.7. Their sum is not the smaller of
  0.9 and of the sum of the due amounts, neither as an exact sum nor as a sum in double
  precision; and the second payment amount is not the smaller of its due amount and of
  the exact difference of 0.9 and the first one.
\<close>

theorem amountPaymentEntries_sum_counterexample:
  "nonNegative (Finite double_0_9)
   \<and> nonNegative (due_amount invoiceC) \<and> nonNegative (due_amount invoiceD)
   \<and> map payment_amount (amountPaymentEntries (Finite double_0_9) [invoiceC, invoiceD])
       = [Finite double_0_2, Finite double_0_7]
   \<and> double_0_2 + double_0_7 \<noteq> min double_0_9 (double_0_2 + double_0_8)
   \<and> js_add (Finite double_0_2) (Finite double_0_7)
       \<noteq> mathMin (Finite double_0_9) (js_add (Finite double_0_2) (Finite double_0_8))
   \<and> double_0_7 \<noteq> min double_0_8 (double_0_9 - double_0_2)"
proof -
  have n: "nonNegative (Finite double_0_9)" "nonNegative (Finite double_0_2)"
      "nonNegative (Finite double_0_8)"
    by (simp_all add: isDouble_decimal_doubles)
       (simp_all add: double_0_2_def double_0_8_def double_0_9_def)
  have m1: "mathMin (Finite double_0_2) (Finite double_0_9) = Finite double_0_2"
    by (simp add: mathMin_def double_0_2_def double_0_9_def)
  have m2: "mathMin (Finite double_0_8) (Finite double_0_7) = Finite double_0_7"
    by (simp add: mathMin_def double_0_7_def double_0_8_def)
  have x1: "mathMax (Finite double_0_2) (Finite 0) = Finite double_0_2"
    by (simp add: mathMax_def double_0_2_def)
  have v: "map payment_amount (amountPaymentEntries (Finite double_0_9) [invoiceC, invoiceD])
       = [Finite double_0_2, Finite double_0_7]"
    by (simp add: amountPaymentEntries_def invoiceC_def invoiceD_def Let_def m1 x1
          decimal_arithmetic(1) m2)
  have e: "double_0_2 + double_0_7 \<noteq> min double_0_9 (double_0_2 + double_0_8)"
      "double_0_7 \<noteq> min double_0_8 (double_0_9 - double_0_2)"
    by (simp_all add: double_0_2_def double_0_7_def double_0_8_def double_0_9_def)
  have j: "js_add (Finite double_0_2) (Finite double_0_7)
       \<noteq> mathMin (Finite double_0_9) (js_add (Finite double_0_2) (Finite double_0_8))"
    unfolding decimal_arithmetic(2,3) by (simp add: mathMin_def double_0_9_def)
  from n v e j show ?thesis by (simp add: invoiceC_def invoiceD_def)
qed

end
